theory Spec2Isabelle
  imports
    Main
    "HOL-Library.Sublist"
    "HOL-Library.Multiset"
    "HOL-Library.Char_ord"
    "HOL-Library.List_Lexorder"
begin

section \<open>Python values\<close>

text \<open>
  Both scripts work on what \<^verbatim>\<open>json.load\<close> and \<^verbatim>\<open>r.json()\<close> return: \<^verbatim>\<open>None\<close>,
  booleans, integers, strings, lists and dicts with string keys. A dict is kept as the list
  of its items (a loaded dict holds each key once). JSON numbers with a fraction are left
  out. A string is the list of the bytes of its UTF-8 encoding; the only places where the code
  looks inside a string (\<^verbatim>\<open>lower\<close>, \<^verbatim>\<open>in\<close> with an ASCII needle, an ASCII regular
  expression, the order of \<^verbatim>\<open>sorted\<close>) agree on code points and on bytes.
\<close>

datatype json =
    JNull
  | JBool bool
  | JInt int
  | JStr string
  | JList "json list"
  | JDict "(string \<times> json) list"

datatype py_error = AttributeError | TypeError | JSONDecodeError

definition bindE :: "'e + 'a \<Rightarrow> ('a \<Rightarrow> 'e + 'b) \<Rightarrow> 'e + 'b" where
  "bindE m f = (case m of Inl e \<Rightarrow> Inl e | Inr x \<Rightarrow> f x)"

text \<open>A \<^verbatim>\<open>for\<close> loop whose body updates the state or raises.\<close>

fun for_each :: "('a \<Rightarrow> 's \<Rightarrow> 'e + 's) \<Rightarrow> 'a list \<Rightarrow> 's \<Rightarrow> 'e + 's" where
  "for_each body [] s = Inr s"
| "for_each body (x # xs) s =
     (case body x s of Inl e \<Rightarrow> Inl e | Inr s' \<Rightarrow> for_each body xs s')"

text \<open>Truth value of an object, as \<^verbatim>\<open>if v\<close>, \<^verbatim>\<open>not v\<close> and \<^verbatim>\<open>or\<close> take it.\<close>

fun truthy :: "json \<Rightarrow> bool" where
  "truthy JNull = False"
| "truthy (JBool b) = b"
| "truthy (JInt i) = (i \<noteq> 0)"
| "truthy (JStr s) = (s \<noteq> [])"
| "truthy (JList xs) = (xs \<noteq> [])"
| "truthy (JDict kvs) = (kvs \<noteq> [])"

definition py_or :: "json \<Rightarrow> json \<Rightarrow> json" where
  "py_or a b = (if truthy a then a else b)"

text \<open>\<^verbatim>\<open>d.get(k)\<close> and \<^verbatim>\<open>d.get(k, default)\<close> on the items of a dict.\<close>

definition lookup :: "(string \<times> json) list \<Rightarrow> string \<Rightarrow> json" where
  "lookup kvs k = (case map_of kvs k of None \<Rightarrow> JNull | Some v \<Rightarrow> v)"

definition lookup_default :: "(string \<times> json) list \<Rightarrow> string \<Rightarrow> json \<Rightarrow> json" where
  "lookup_default kvs k d = (case map_of kvs k of None \<Rightarrow> d | Some v \<Rightarrow> v)"

text \<open>Iteration: a list gives its elements, a dict its keys, a string its characters;
  \<^verbatim>\<open>None\<close>, a boolean and an integer are not iterable.\<close>

fun py_iter :: "json \<Rightarrow> py_error + json list" where
  "py_iter (JList xs) = Inr xs"
| "py_iter (JDict kvs) = Inr (map (\<lambda>kv. JStr (fst kv)) kvs)"
| "py_iter (JStr s) = Inr (map (\<lambda>c. JStr [c]) s)"
| "py_iter JNull = Inl TypeError"
| "py_iter (JBool b) = Inl TypeError"
| "py_iter (JInt i) = Inl TypeError"

fun py_len :: "json \<Rightarrow> py_error + int" where
  "py_len (JList xs) = Inr (int (length xs))"
| "py_len (JDict kvs) = Inr (int (length kvs))"
| "py_len (JStr s) = Inr (int (length s))"
| "py_len JNull = Inl TypeError"
| "py_len (JBool b) = Inl TypeError"
| "py_len (JInt i) = Inl TypeError"

subsection \<open>Strings\<close>

definition lower_char :: "char \<Rightarrow> char" where
  "lower_char c =
     (if CHR ''A'' \<le> c \<and> c \<le> CHR ''Z'' then char_of (of_char c + (32::nat)) else c)"

text \<open>\<^verbatim>\<open>x.lower()\<close>: only a string has the method.\<close>

fun py_lower :: "json \<Rightarrow> py_error + string" where
  "py_lower (JStr s) = Inr (map lower_char s)"
| "py_lower v = Inl AttributeError"

text \<open>The regular expression \<^verbatim>\<open>/rpc/([a-zA-Z_][a-zA-Z0-9_]*)\<close>.\<close>

definition ident_start :: "char \<Rightarrow> bool" where
  "ident_start c \<longleftrightarrow>
     (CHR ''a'' \<le> c \<and> c \<le> CHR ''z'') \<or> (CHR ''A'' \<le> c \<and> c \<le> CHR ''Z'') \<or> c = CHR ''_''"

definition ident_char :: "char \<Rightarrow> bool" where
  "ident_char c \<longleftrightarrow>
     (CHR ''a'' \<le> c \<and> c \<le> CHR ''z'') \<or> (CHR ''A'' \<le> c \<and> c \<le> CHR ''Z'') \<or>
     (CHR ''0'' \<le> c \<and> c \<le> CHR ''9'') \<or> c = CHR ''_''"

text \<open>A match that starts at the first character: the literal, one starting character,
  then as many identifier characters as there are (the star is greedy and nothing follows
  it). The result is group 1.\<close>

definition rpc_match :: "string \<Rightarrow> string option" where
  "rpc_match s =
     (if take 5 s = ''/rpc/'' then
        (case drop 5 s of
           [] \<Rightarrow> None
         | c # cs \<Rightarrow> if ident_start c then Some (c # takeWhile ident_char cs) else None)
      else None)"

text \<open>\<^verbatim>\<open>re.search\<close> tries the start positions from left to right.\<close>

fun rpc_search :: "string \<Rightarrow> string option" where
  "rpc_search [] = None"
| "rpc_search (c # cs) =
     (case rpc_match (c # cs) of Some g \<Rightarrow> Some g | None \<Rightarrow> rpc_search cs)"

fun re_search_rpc :: "json \<Rightarrow> py_error + string option" where
  "re_search_rpc (JStr s) = Inr (rpc_search s)"
| "re_search_rpc v = Inl TypeError"

subsection \<open>Sets\<close>

text \<open>
  What a set can hold among these values: \<^verbatim>\<open>None\<close>, booleans, integers and strings
  (lists and dicts are unhashable). Python's \<^verbatim>\<open>==\<close> identifies \<^verbatim>\<open>True\<close> with 1 and
  \<^verbatim>\<open>False\<close> with 0. A set is the list of its elements, none equal to another; the list's
  order is not the set's iteration order and nothing below reads it.
\<close>

datatype atom = ANone | ABool bool | AInt int | AStr string

fun atom_of :: "json \<Rightarrow> atom option" where
  "atom_of JNull = Some ANone"
| "atom_of (JBool b) = Some (ABool b)"
| "atom_of (JInt i) = Some (AInt i)"
| "atom_of (JStr s) = Some (AStr s)"
| "atom_of (JList xs) = None"
| "atom_of (JDict kvs) = None"

fun json_of :: "atom \<Rightarrow> json" where
  "json_of ANone = JNull"
| "json_of (ABool b) = JBool b"
| "json_of (AInt i) = JInt i"
| "json_of (AStr s) = JStr s"

text \<open>The representative of an atom's equality class.\<close>

fun key :: "atom \<Rightarrow> atom" where
  "key (ABool b) = AInt (if b then 1 else 0)"
| "key a = a"

definition in_set :: "atom \<Rightarrow> atom list \<Rightarrow> bool" where
  "in_set a S \<longleftrightarrow> key a \<in> set (map key S)"

text \<open>\<^verbatim>\<open>S.add(v)\<close> and \<^verbatim>\<open>v in S\<close> hash \<^verbatim>\<open>v\<close> first.\<close>

definition set_add :: "json \<Rightarrow> atom list \<Rightarrow> py_error + atom list" where
  "set_add v S =
     (case atom_of v of
        None \<Rightarrow> Inl TypeError
      | Some a \<Rightarrow> Inr (if in_set a S then S else S @ [a]))"

definition set_contains :: "json \<Rightarrow> atom list \<Rightarrow> py_error + bool" where
  "set_contains v S =
     (case atom_of v of None \<Rightarrow> Inl TypeError | Some a \<Rightarrow> Inr (in_set a S))"

text \<open>
  \<^verbatim>\<open>sorted\<close> of a set or of the empty list. Numbers compare with numbers and strings with
  strings; any other comparison raises, and a sort of two or more elements compares each
  element with another one.
\<close>

fun atom_num :: "atom \<Rightarrow> int option" where
  "atom_num (ABool b) = Some (if b then 1 else 0)"
| "atom_num (AInt i) = Some i"
| "atom_num a = None"

fun atom_str :: "atom \<Rightarrow> string option" where
  "atom_str (AStr s) = Some s"
| "atom_str a = None"

definition py_sorted :: "atom list \<Rightarrow> py_error + atom list" where
  "py_sorted S =
     (if length S \<le> 1 then Inr S
      else if list_all (\<lambda>a. atom_num a \<noteq> None) S
        then Inr (sort_key (\<lambda>a. the (atom_num a)) S)
      else if list_all (\<lambda>a. atom_str a \<noteq> None) S
        then Inr (sort_key (\<lambda>a. the (atom_str a)) S)
      else Inl TypeError)"

section \<open>merge\_data.py\<close>

subsection \<open>get\_value\<close>

text \<open>
  The last line of \<^verbatim>\<open>get_value\<close> is \<^verbatim>\<open>str(v)\<close> on a boolean, an integer or a list.
  The built-in is the parameter \<open>py_str\<close>.
\<close>

definition get_value :: "(json \<Rightarrow> string) \<Rightarrow> json \<Rightarrow> json" where
  "get_value py_str v =
     (case v of
        JNull \<Rightarrow> JStr []
      | JStr s \<Rightarrow> JStr s
      | JDict kvs \<Rightarrow> py_or (lookup kvs ''cachedResultName'') (py_or (lookup kvs ''value'') (JStr []))
      | _ \<Rightarrow> JStr (py_str v))"

subsection \<open>extract\_supabase\_references\_from\_workflows\<close>

type_synonym usage = "atom list \<times> atom list"

text \<open>Lines 46 to 56: the body of \<^verbatim>\<open>if "supabase" in node_type\<close>.\<close>

fun supabase_branch :: "(json \<Rightarrow> string) \<Rightarrow> json \<Rightarrow> usage \<Rightarrow> py_error + usage" where
  "supabase_branch py_str (JDict ps) (tables_used, functions_used) =
     (let table_name = get_value py_str (lookup ps ''tableName'') in
      bindE (if truthy table_name \<and> table_name \<noteq> JStr ''Supabase''
             then set_add table_name tables_used else Inr tables_used)
        (\<lambda>tables_used'.
           let operation = get_value py_str (lookup ps ''operation'') in
           if operation = JStr ''call'' then
             (let func_name =
                    get_value py_str (py_or (lookup ps ''functionName'') (lookup ps ''rpc'')) in
              bindE (if truthy func_name then set_add func_name functions_used
                     else Inr functions_used)
                (\<lambda>functions_used'. Inr (tables_used', functions_used')))
           else Inr (tables_used', functions_used)))"
| "supabase_branch py_str params u = Inl AttributeError"

text \<open>Lines 59 to 64: the body of \<^verbatim>\<open>if "httprequest" in node_type or "http" in node_type\<close>.\<close>

fun http_branch :: "(json \<Rightarrow> string) \<Rightarrow> json \<Rightarrow> usage \<Rightarrow> py_error + usage" where
  "http_branch py_str (JDict ps) (tables_used, functions_used) =
     (let url = get_value py_str (lookup_default ps ''url'' (JStr [])) in
      bindE (re_search_rpc url)
        (\<lambda>m. case m of
                None \<Rightarrow> Inr (tables_used, functions_used)
              | Some g \<Rightarrow>
                  bindE (set_add (JStr g) functions_used)
                    (\<lambda>functions_used'. Inr (tables_used, functions_used'))))"
| "http_branch py_str params u = Inl AttributeError"

text \<open>Lines 42 and 43, for a node that is a dict.\<close>

definition node_type :: "(string \<times> json) list \<Rightarrow> py_error + string" where
  "node_type nd = py_lower (py_or (lookup nd ''type'') (JStr []))"

definition node_params :: "(string \<times> json) list \<Rightarrow> json" where
  "node_params nd = lookup_default nd ''parameters'' (JDict [])"

text \<open>Lines 42 to 64: one turn of the inner loop.\<close>

fun extract_node :: "(json \<Rightarrow> string) \<Rightarrow> json \<Rightarrow> usage \<Rightarrow> py_error + usage" where
  "extract_node py_str (JDict nd) u =
     bindE (node_type nd)
       (\<lambda>ty.
          let params = node_params nd in
          bindE (if sublist ''supabase'' ty then supabase_branch py_str params u else Inr u)
            (\<lambda>u'. if sublist ''httprequest'' ty \<or> sublist ''http'' ty
                   then http_branch py_str params u' else Inr u'))"
| "extract_node py_str node u = Inl AttributeError"

text \<open>Line 41 and its loop: one turn of the outer loop.\<close>

fun extract_workflow :: "(json \<Rightarrow> string) \<Rightarrow> json \<Rightarrow> usage \<Rightarrow> py_error + usage" where
  "extract_workflow py_str (JDict w) u =
     bindE (py_iter (lookup_default w ''nodes'' (JList [])))
       (\<lambda>nodes. for_each (extract_node py_str) nodes u)"
| "extract_workflow py_str workflow u = Inl AttributeError"

definition extract_supabase_references_from_workflows ::
    "(json \<Rightarrow> string) \<Rightarrow> json \<Rightarrow> py_error + usage" where
  "extract_supabase_references_from_workflows py_str workflows =
     bindE (py_iter workflows)
       (\<lambda>ws. for_each (extract_workflow py_str) ws ([], []))"

subsection \<open>main\<close>

text \<open>
  The files \<^verbatim>\<open>main\<close> reads: a path holds nothing, text that \<^verbatim>\<open>json.load\<close> rejects,
  or a value. The clock's reading, already formatted, is the parameter \<open>now\<close>. The model
  returns the object that \<^verbatim>\<open>main\<close> hands to \<^verbatim>\<open>json.dump\<close>; what it prints is left out,
  except that the two calls of \<^verbatim>\<open>sorted\<close> inside the printed lines can raise.
\<close>

datatype file_state = Absent | Malformed | Content json

type_synonym filesystem = "string \<Rightarrow> file_state"

definition load_json :: "filesystem \<Rightarrow> string \<Rightarrow> py_error + json" where
  "load_json fs path =
     (case fs path of
        Absent \<Rightarrow> Inr JNull
      | Malformed \<Rightarrow> Inl JSONDecodeError
      | Content v \<Rightarrow> Inr v)"

text \<open>Lines 82 to 90.\<close>

definition load_workflows :: "filesystem \<Rightarrow> py_error + json" where
  "load_workflows fs =
     bindE (load_json fs ''n8n_data.json'')
       (\<lambda>first.
          bindE (if \<not> truthy first then load_json fs ''n8n_workflows_export/n8n_data.json''
                 else Inr first)
            (\<lambda>n8n_data.
               if \<not> truthy n8n_data then Inr (JList [])
               else Inr (case n8n_data of
                           JDict kvs \<Rightarrow> lookup_default kvs ''workflows'' (JList [])
                         | _ \<Rightarrow> n8n_data)))"

text \<open>Lines 93 to 99.\<close>

definition load_supabase_data :: "filesystem \<Rightarrow> py_error + json" where
  "load_supabase_data fs =
     bindE (load_json fs ''supabase_data.json'')
       (\<lambda>first.
          bindE (if \<not> truthy first then load_json fs ''supabase_export_tables/supabase_data.json''
                 else Inr first)
            (\<lambda>supabase_data.
               if \<not> truthy supabase_data
               then Inr (JDict [(''tables'', JList []), (''functions'', JList []),
                                (''metadata'', JDict [])])
               else Inr supabase_data))"

text \<open>Lines 109 to 114 and 119 to 125: the bodies of the two enriching loops. The dict
  appended by each is written first.\<close>

definition table_entry :: "(string \<times> json) list \<Rightarrow> bool \<Rightarrow> json" where
  "table_entry t used =
     JDict [(''name'', lookup t ''name''),
            (''schema'', lookup_default t ''schema'' (JStr ''public'')),
            (''used_by_n8n'', JBool used)]"

definition function_entry :: "(string \<times> json) list \<Rightarrow> bool \<Rightarrow> json" where
  "function_entry f used =
     JDict [(''name'', lookup f ''name''),
            (''schema'', lookup_default f ''schema'' (JStr ''public'')),
            (''tables_used'', lookup_default f ''tables_used'' (JList [])),
            (''used_by_n8n'', JBool used)]"

fun enrich_table :: "atom list \<Rightarrow> json \<Rightarrow> json list \<Rightarrow> py_error + json list" where
  "enrich_table tables_used (JDict t) enriched_tables =
     bindE (set_contains (lookup t ''name'') tables_used)
       (\<lambda>used. Inr (enriched_tables @ [table_entry t used]))"
| "enrich_table tables_used table enriched_tables = Inl AttributeError"

fun enrich_function :: "atom list \<Rightarrow> json \<Rightarrow> json list \<Rightarrow> py_error + json list" where
  "enrich_function functions_used (JDict f) enriched_functions =
     bindE (set_contains (lookup f ''name'') functions_used)
       (\<lambda>used. Inr (enriched_functions @ [function_entry f used]))"
| "enrich_function functions_used func enriched_functions = Inl AttributeError"

text \<open>Lines 128 to 142: the dict \<^verbatim>\<open>stack_data\<close>.\<close>

definition stack_data ::
    "string \<Rightarrow> json \<Rightarrow> json list \<Rightarrow> json list \<Rightarrow> atom list \<Rightarrow> atom list \<Rightarrow> py_error + json" where
  "stack_data now workflows enriched_tables enriched_functions
       tables_used_by_n8n functions_used_by_n8n =
     bindE (py_len workflows) (\<lambda>workflow_count.
       Inr (JDict
         [(''metadata'', JDict
             [(''generated_at'', JStr now),
              (''workflow_count'', JInt workflow_count),
              (''table_count'', JInt (int (length enriched_tables))),
              (''function_count'', JInt (int (length enriched_functions))),
              (''tables_used_by_n8n'', JInt (int (length tables_used_by_n8n))),
              (''functions_used_by_n8n'', JInt (int (length functions_used_by_n8n)))]),
          (''workflows'', workflows),
          (''supabase'', JDict
             [(''tables'', JList enriched_tables),
              (''functions'', JList enriched_functions)])]))"

text \<open>Lines 102 to 142, from the two loaded values to \<^verbatim>\<open>stack_data\<close>.\<close>

definition reconcile ::
    "(json \<Rightarrow> string) \<Rightarrow> string \<Rightarrow> json \<Rightarrow> json \<Rightarrow> py_error + json" where
  "reconcile py_str now workflows supabase_data =
     bindE (extract_supabase_references_from_workflows py_str workflows)
       (\<lambda>(tables_used_by_n8n, functions_used_by_n8n).
     bindE (py_sorted tables_used_by_n8n) (\<lambda>printed_tables.
     bindE (py_sorted functions_used_by_n8n) (\<lambda>printed_functions.
       case supabase_data of
         JDict sd \<Rightarrow>
           bindE (py_iter (lookup_default sd ''tables'' (JList []))) (\<lambda>tables.
           bindE (for_each (enrich_table tables_used_by_n8n) tables []) (\<lambda>enriched_tables.
           bindE (py_iter (lookup_default sd ''functions'' (JList []))) (\<lambda>functions.
           bindE (for_each (enrich_function functions_used_by_n8n) functions [])
             (\<lambda>enriched_functions.
               stack_data now workflows enriched_tables enriched_functions
                 tables_used_by_n8n functions_used_by_n8n))))
       | _ \<Rightarrow> Inl AttributeError)))"

definition main :: "(json \<Rightarrow> string) \<Rightarrow> string \<Rightarrow> filesystem \<Rightarrow> py_error + json" where
  "main py_str now fs =
     bindE (load_workflows fs) (\<lambda>workflows.
     bindE (load_supabase_data fs) (\<lambda>supabase_data.
       reconcile py_str now workflows supabase_data))"

section \<open>supabase\_export\_tables.py\<close>

subsection \<open>build\_functions\_with\_dependencies\<close>

text \<open>
  \<^verbatim>\<open>dep_map\<close> is a dict from pairs to sets. A pair is hashable when both components are,
  and two pairs are equal when their components are.
\<close>

type_synonym dep_map = "atom \<times> atom \<Rightarrow> atom list option"

definition tuple_key :: "json \<Rightarrow> json \<Rightarrow> py_error + atom \<times> atom" where
  "tuple_key a b =
     (case atom_of a of
        None \<Rightarrow> Inl TypeError
      | Some x \<Rightarrow> (case atom_of b of None \<Rightarrow> Inl TypeError | Some y \<Rightarrow> Inr (key x, key y)))"

text \<open>Lines 114 to 119: the body of the first loop.\<close>

fun add_dependency :: "json \<Rightarrow> dep_map \<Rightarrow> py_error + dep_map" where
  "add_dependency (JDict dep) dep_map =
     bindE (tuple_key (lookup_default dep ''function_schema'' (JStr ''public''))
                      (lookup dep ''function_name''))
       (\<lambda>k. let S = (case dep_map k of None \<Rightarrow> [] | Some S \<Rightarrow> S);
                 table_name = lookup dep ''referenced_table'' in
             bindE (if truthy table_name then set_add table_name S else Inr S)
               (\<lambda>S'. Inr (dep_map(k \<mapsto> S'))))"
| "add_dependency dep dep_map = Inl AttributeError"

text \<open>Lines 123 to 131: the body of the second loop.\<close>

fun resolve_function :: "dep_map \<Rightarrow> json \<Rightarrow> json list \<Rightarrow> py_error + json list" where
  "resolve_function dep_map (JDict fn) result =
     (let schema = py_or (lookup fn ''schema_name'')
                     (py_or (lookup fn ''function_schema'') (JStr ''public''));
          name = py_or (lookup fn ''function_name'') (lookup fn ''name'') in
      bindE (tuple_key schema name)
        (\<lambda>k. bindE (py_sorted (case dep_map k of None \<Rightarrow> [] | Some S \<Rightarrow> S))
           (\<lambda>tables_used. Inr (result @
              [JDict [(''schema'', schema),
                      (''name'', name),
                      (''tables_used'', JList (map json_of tables_used))]]))))"
| "resolve_function dep_map fn result = Inl AttributeError"

definition build_functions_with_dependencies :: "json \<Rightarrow> json \<Rightarrow> py_error + json list" where
  "build_functions_with_dependencies functions dependencies =
     bindE (py_iter dependencies) (\<lambda>deps.
     bindE (for_each add_dependency deps Map.empty) (\<lambda>dep_map.
     bindE (py_iter functions) (\<lambda>fns.
       for_each (resolve_function dep_map) fns [])))"

section \<open>Vocabulary of the statements and proofs\<close>

text \<open>The equality classes of the elements of a set.\<close>

definition keys :: "atom list \<Rightarrow> atom set" where
  "keys S = key ` set S"

text \<open>The nodes that the two loops of the extractor visit.\<close>

definition workflow_nodes :: "json \<Rightarrow> json list" where
  "workflow_nodes w =
     (case w of
        JDict kvs \<Rightarrow>
          (case py_iter (lookup_default kvs ''nodes'' (JList [])) of Inr ns \<Rightarrow> ns | Inl e \<Rightarrow> [])
      | _ \<Rightarrow> [])"

definition all_nodes :: "json \<Rightarrow> json list" where
  "all_nodes workflows =
     (case py_iter workflows of Inr ws \<Rightarrow> concat (map workflow_nodes ws) | Inl e \<Rightarrow> [])"

text \<open>What every reachable pair of usage sets satisfies.\<close>

definition usage_inv :: "usage \<Rightarrow> bool" where
  "usage_inv u \<longleftrightarrow>
     distinct (map key (fst u)) \<and> distinct (map key (snd u)) \<and>
     list_all (\<lambda>a. truthy (json_of a) \<and> a \<noteq> AStr ''Supabase'') (fst u)"

text \<open>
  A step is additive when it fails or succeeds regardless of the sets it starts from, and
  what it adds to them is what it adds to the empty sets.
\<close>

definition grows :: "usage \<Rightarrow> usage \<Rightarrow> usage \<Rightarrow> bool" where
  "grows u c u' \<longleftrightarrow>
     keys (fst u') = keys (fst u) \<union> keys (fst c) \<and> keys (snd u') = keys (snd u) \<union> keys (snd c)"

definition additive :: "(usage \<Rightarrow> py_error + usage) \<Rightarrow> bool" where
  "additive f \<longleftrightarrow> (\<forall>u. rel_sum (=) (grows u) (f ([], [])) (f u))"

text \<open>Reading a key of a value that may not be a dict.\<close>

definition field :: "json \<Rightarrow> string \<Rightarrow> json" where
  "field v k = (case v of JDict kvs \<Rightarrow> lookup kvs k | _ \<Rightarrow> JNull)"

text \<open>A catalog record that the enriching loops accept: a dict whose name is hashable.\<close>

definition catalog_record :: "json \<Rightarrow> bool" where
  "catalog_record v \<longleftrightarrow> (case v of JDict kvs \<Rightarrow> atom_of (lookup kvs ''name'') \<noteq> None | _ \<Rightarrow> False)"

text \<open>Whether a value is in a set, without the error.\<close>

definition member :: "json \<Rightarrow> atom list \<Rightarrow> bool" where
  "member v S \<longleftrightarrow> set_contains v S = Inr True"

text \<open>The entries that the loops append for one record.\<close>

definition enriched_table :: "atom list \<Rightarrow> json \<Rightarrow> json" where
  "enriched_table S v = (case v of JDict t \<Rightarrow> table_entry t (member (lookup t ''name'') S) | _ \<Rightarrow> JNull)"

definition enriched_function :: "atom list \<Rightarrow> json \<Rightarrow> json" where
  "enriched_function S v =
     (case v of JDict f \<Rightarrow> function_entry f (member (lookup f ''name'') S) | _ \<Rightarrow> JNull)"

text \<open>
  The records of the resolver, as the specification types them: every field that
  \<open>build_functions_with_dependencies\<close> reads is a string, \<^verbatim>\<open>None\<close> or absent.
\<close>

definition str_or_null :: "json \<Rightarrow> bool" where
  "str_or_null v \<longleftrightarrow> (case v of JNull \<Rightarrow> True | JStr s \<Rightarrow> True | _ \<Rightarrow> False)"

definition dependency_record :: "json \<Rightarrow> bool" where
  "dependency_record v \<longleftrightarrow>
     (case v of
        JDict d \<Rightarrow> str_or_null (lookup d ''function_schema'') \<and>
                   str_or_null (lookup d ''function_name'') \<and>
                   str_or_null (lookup d ''referenced_table'')
      | _ \<Rightarrow> False)"

definition function_record :: "json \<Rightarrow> bool" where
  "function_record v \<longleftrightarrow>
     (case v of
        JDict f \<Rightarrow> str_or_null (lookup f ''schema_name'') \<and>
                   str_or_null (lookup f ''function_schema'') \<and>
                   str_or_null (lookup f ''function_name'') \<and>
                   str_or_null (lookup f ''name'')
      | _ \<Rightarrow> False)"

text \<open>
  The resolver as the specification words it. The key of a dependency record is its schema,
  \<open>public\<close> when the record has none, and its function name; its referenced table is the
  non-empty string under \<open>referenced_table\<close>, if there is one. The key of a function is
  the schema and the name that the code reads for it.
\<close>

definition dependency_key :: "json \<Rightarrow> json \<times> json" where
  "dependency_key v =
     (case v of
        JDict d \<Rightarrow> (lookup_default d ''function_schema'' (JStr ''public''), lookup d ''function_name'')
      | _ \<Rightarrow> (JNull, JNull))"

definition referenced_table :: "json \<Rightarrow> string list" where
  "referenced_table v =
     (case field v ''referenced_table'' of JStr t \<Rightarrow> (if t = [] then [] else [t]) | _ \<Rightarrow> [])"

definition function_key :: "json \<Rightarrow> json \<times> json" where
  "function_key v =
     (py_or (field v ''schema_name'') (py_or (field v ''function_schema'') (JStr ''public'')),
      py_or (field v ''function_name'') (field v ''name''))"

definition spec_tables_used :: "json list \<Rightarrow> json \<times> json \<Rightarrow> string list" where
  "spec_tables_used deps k =
     sort (remdups (concat (map referenced_table (filter (\<lambda>d. dependency_key d = k) deps))))"

definition spec_function_entry :: "json list \<Rightarrow> json \<Rightarrow> json" where
  "spec_function_entry deps fn =
     JDict [(''schema'', fst (function_key fn)),
            (''name'', snd (function_key fn)),
            (''tables_used'', JList (map JStr (spec_tables_used deps (function_key fn))))]"

text \<open>The key of \<open>dep_map\<close> for a pair of hashable values, and the set stored under a key.\<close>

definition akey :: "json \<times> json \<Rightarrow> atom \<times> atom" where
  "akey k = (key (the (atom_of (fst k))), key (the (atom_of (snd k))))"

definition entry :: "dep_map \<Rightarrow> atom \<times> atom \<Rightarrow> atom list" where
  "entry m k = (case m k of None \<Rightarrow> [] | Some S \<Rightarrow> S)"

definition dep_map_inv :: "dep_map \<Rightarrow> bool" where
  "dep_map_inv m \<longleftrightarrow> (\<forall>k. distinct (entry m k) \<and> list_all (\<lambda>a. atom_str a \<noteq> None) (entry m k))"

subsection \<open>Example inputs\<close>

definition example_params_orders :: "(string \<times> json) list" where
  "example_params_orders =
     [(''tableName'', JDict [(''cachedResultName'', JStr ''orders'')]),
      (''operation'', JStr ''call''),
      (''functionName'', JStr []),
      (''rpc'', JStr ''refresh_orders'')]"

definition example_node_orders :: "(string \<times> json) list" where
  "example_node_orders =
     [(''type'', JStr ''n8n-nodes-base.supabase''),
      (''parameters'', JDict example_params_orders)]"

definition example_params_placeholder :: "(string \<times> json) list" where
  "example_params_placeholder = [(''tableName'', JStr ''Supabase'')]"

definition example_node_placeholder :: "(string \<times> json) list" where
  "example_node_placeholder =
     [(''type'', JStr ''n8n-nodes-base.supabase''),
      (''parameters'', JDict example_params_placeholder)]"

definition example_params_http :: "(string \<times> json) list" where
  "example_params_http = [(''url'', JStr ''https://x/rest/v1/rpc/compute_totals?x=1'')]"

definition example_node_http :: "(string \<times> json) list" where
  "example_node_http =
     [(''type'', JStr ''n8n-nodes-base.httpRequest''),
      (''parameters'', JDict example_params_http)]"

definition example_workflow_sync :: json where
  "example_workflow_sync =
     JDict [(''id'', JStr ''1''), (''name'', JStr ''sync''),
            (''nodes'', JList [JDict example_node_orders,
                               JDict example_node_placeholder,
                               JDict example_node_http])]"

definition example_workflow_idle :: json where
  "example_workflow_idle = JDict [(''id'', JStr ''2''), (''name'', JStr ''idle''), (''nodes'', JList [])]"

definition example_workflows :: json where
  "example_workflows = JList [example_workflow_sync, example_workflow_idle]"

definition example_table_orders :: json where
  "example_table_orders = JDict [(''schema'', JStr ''public''), (''name'', JStr ''orders'')]"

definition example_table_users :: json where
  "example_table_users = JDict [(''schema'', JStr ''public''), (''name'', JStr ''users'')]"

definition example_function_public :: json where
  "example_function_public =
     JDict [(''schema'', JStr ''public''), (''name'', JStr ''refresh_orders''),
            (''tables_used'', JList [JStr ''orders''])]"

definition example_function_other :: json where
  "example_function_other =
     JDict [(''schema'', JStr ''reporting''), (''name'', JStr ''refresh_orders''),
            (''tables_used'', JList [])]"

definition catalog_of :: "json list \<Rightarrow> json list \<Rightarrow> (string \<times> json) list" where
  "catalog_of ts fs = [(''metadata'', JDict []), (''tables'', JList ts), (''functions'', JList fs)]"

definition example_files :: filesystem where
  "example_files path =
     (if path = ''n8n_data.json'' then Content (JDict [(''workflows'', example_workflows)])
      else if path = ''supabase_export_tables/supabase_data.json''
      then Content (JDict (catalog_of [example_table_orders, example_table_users]
                                      [example_function_public, example_function_other]))
      else Absent)"

definition example_files_catalog_only :: filesystem where
  "example_files_catalog_only path =
     (if path = ''supabase_data.json''
      then Content (JDict (catalog_of [example_table_orders, example_table_users]
                                      [example_function_public, example_function_other]))
      else Absent)"

definition example_functions :: "json list" where
  "example_functions =
     [JDict [(''function_name'', JStr ''refresh_orders''), (''schema_name'', JStr ''public'')],
      JDict [(''function_name'', JStr ''ping'')],
      JDict [(''name'', JStr ''archive''), (''function_schema'', JStr ''reporting'')]]"

definition example_dependencies :: "json list" where
  "example_dependencies =
     [JDict [(''function_schema'', JStr ''public''), (''function_name'', JStr ''refresh_orders''),
             (''referenced_table'', JStr ''orders'')],
      JDict [(''function_name'', JStr ''refresh_orders''), (''referenced_table'', JStr ''customers'')],
      JDict [(''function_schema'', JStr ''public''), (''function_name'', JStr ''refresh_orders''),
             (''referenced_table'', JStr ''orders'')],
      JDict [(''function_schema'', JStr ''public''), (''function_name'', JStr ''ping''),
             (''referenced_table'', JNull)],
      JDict [(''function_schema'', JStr ''public''), (''function_name'', JStr ''archive''),
             (''referenced_table'', JStr ''orders'')]]"

section \<open>Sets and loops\<close>

lemma bindE_simps [simp]: "bindE (Inl e) f = Inl e" "bindE (Inr x) f = f x"
  by (simp_all add: bindE_def)

lemma bindE_Inr_iff: "bindE m f = Inr y \<longleftrightarrow> (\<exists>x. m = Inr x \<and> f x = Inr y)"
  by (cases m) auto

lemma keys_simps [simp]:
  "keys [] = {}" "keys (a # S) = insert (key a) (keys S)" "keys (S @ S') = keys S \<union> keys S'"
  by (auto simp: keys_def)

lemma in_set_keys: "in_set a S \<longleftrightarrow> key a \<in> keys S"
  by (simp add: in_set_def keys_def)

lemma set_add_cases:
  "set_add v S = (case atom_of v of None \<Rightarrow> Inl TypeError
       | Some a \<Rightarrow> Inr (if in_set a S then S else S @ [a]))"
  by (simp add: set_add_def)

lemma set_add_Inr:
  "set_add v S = Inr S' \<Longrightarrow> \<exists>a. atom_of v = Some a \<and> keys S' = insert (key a) (keys S)"
  by (auto simp: set_add_def in_set_keys split: option.splits if_splits)

lemma additive_Inr: "additive Inr"
  by (simp add: additive_def grows_def)

lemma additiveD: "additive f \<Longrightarrow> rel_sum (=) (grows u) (f ([], [])) (f u)"
  unfolding additive_def by blast

lemma additiveI: "(\<And>u. rel_sum (=) (grows u) (f ([], [])) (f u)) \<Longrightarrow> additive f"
  unfolding additive_def by blast

lemma grows_trans: "grows u c u1 \<Longrightarrow> grows c d c' \<Longrightarrow> grows u1 d u' \<Longrightarrow> grows u c' u'"
  by (auto simp: grows_def)

lemma additive_bind:
  assumes "additive f" and "additive g"
  shows "additive (\<lambda>u. bindE (f u) g)"
proof (rule additiveI)
  fix u
  note rf = additiveD [OF assms(1), of u]
  show "rel_sum (=) (grows u) (bindE (f ([], [])) g) (bindE (f u) g)"
  proof (cases "f ([], [])")
    case (Inl e)
    with rf show ?thesis by (cases "f u") auto
  next
    case (Inr c)
    with rf obtain u1 where u1: "f u = Inr u1" "grows u c u1"
      by (cases "f u") auto
    note gc = additiveD [OF assms(2), of c] and gu = additiveD [OF assms(2), of u1]
    show ?thesis
    proof (cases "g ([], [])")
      case (Inl e)
      with gc gu show ?thesis using Inr u1 by (cases "g c"; cases "g u1") auto
    next
      case d: (Inr d)
      with gc gu show ?thesis using Inr u1
        by (cases "g c"; cases "g u1") (auto intro: grows_trans)
    qed
  qed
qed

lemma additive_for_each:
  assumes "\<And>x. x \<in> set xs \<Longrightarrow> additive (body x)"
  shows "additive (for_each body xs)"
  using assms
proof (induction xs)
  case Nil
  have "for_each body [] = Inr" by (rule ext) simp
  then show ?case by (simp add: additive_Inr)
next
  case (Cons x xs)
  have "for_each body (x # xs) = (\<lambda>u. bindE (body x u) (for_each body xs))"
    by (rule ext) (simp add: bindE_def)
  with Cons show ?case by (simp add: additive_bind)
qed


lemma grows_refl: "grows u ([], []) u"
  by (simp add: grows_def)

lemma additive_supabase_branch: "additive (supabase_branch py_str params)"
proof (rule additiveI)
  fix u :: usage
  obtain T F where u: "u = (T, F)" by (cases u)
  show "rel_sum (=) (grows u) (supabase_branch py_str params ([], [])) (supabase_branch py_str params u)"
  proof (cases params)
    case (JDict ps)
    then show ?thesis
      by (auto simp: u Let_def set_add_def in_set_keys grows_def split: option.splits)
  qed (simp_all add: u)
qed

lemma additive_http_branch: "additive (http_branch py_str params)"
proof (rule additiveI)
  fix u :: usage
  obtain T F where u: "u = (T, F)" by (cases u)
  show "rel_sum (=) (grows u) (http_branch py_str params ([], [])) (http_branch py_str params u)"
  proof (cases params)
    case (JDict ps)
    show ?thesis
    proof (cases "re_search_rpc (get_value py_str (lookup_default ps ''url'' (JStr [])))")
      case (Inl e)
      then show ?thesis by (simp add: u JDict)
    next
      case (Inr m)
      then show ?thesis
        by (cases m) (auto simp: u JDict set_add_def in_set_keys grows_def)
    qed
  qed (simp_all add: u)
qed

lemma additive_extract_node: "additive (extract_node py_str node)"
proof (cases node)
  case (JDict nd)
  show ?thesis
  proof (cases "node_type nd")
    case (Inl e)
    then show ?thesis by (simp add: JDict additive_def)
  next
    case (Inr ty)
    have "extract_node py_str node =
        (\<lambda>u. bindE ((if sublist ''supabase'' ty then supabase_branch py_str (node_params nd) else Inr) u)
              (if sublist ''httprequest'' ty \<or> sublist ''http'' ty
               then http_branch py_str (node_params nd) else Inr))"
      by (rule ext) (simp add: JDict Inr Let_def)
    moreover have "additive (if sublist ''supabase'' ty then supabase_branch py_str (node_params nd) else Inr)"
      by (simp add: additive_supabase_branch additive_Inr)
    moreover have "additive (if sublist ''httprequest'' ty \<or> sublist ''http'' ty
               then http_branch py_str (node_params nd) else Inr)"
      by (simp add: additive_http_branch additive_Inr)
    ultimately show ?thesis by (simp add: additive_bind)
  qed
qed (simp_all add: additive_def)

lemma additive_extract_workflow: "additive (extract_workflow py_str w)"
proof (cases w)
  case (JDict kvs)
  show ?thesis
  proof (cases "py_iter (lookup_default kvs ''nodes'' (JList []))")
    case (Inl e)
    then show ?thesis by (simp add: JDict additive_def)
  next
    case (Inr nodes)
    have "extract_workflow py_str w = for_each (extract_node py_str) nodes"
      by (rule ext) (simp add: JDict Inr)
    then show ?thesis by (simp add: additive_for_each additive_extract_node)
  qed
qed (simp_all add: additive_def)

text \<open>What a loop of additive bodies returns.\<close>

lemma for_each_additive_ok:
  assumes "\<And>x. additive (body x)"
  shows "(\<exists>u'. for_each body xs u = Inr u') \<longleftrightarrow> (\<forall>x \<in> set xs. \<exists>c. body x ([], []) = Inr c)"
proof (induction xs arbitrary: u)
  case Nil
  show ?case by simp
next
  case (Cons x xs)
  note r = additiveD [OF assms [of x], of u]
  show ?case
  proof (cases "body x ([], [])")
    case (Inl e)
    with r have "body x u = Inl e" by (cases "body x u") auto
    with Inl show ?thesis by simp
  next
    case (Inr c)
    with r obtain u1 where "body x u = Inr u1" by (cases "body x u") auto
    with Inr Cons.IH [of u1] show ?thesis by simp
  qed
qed

lemma for_each_additive_keys:
  assumes "\<And>x. additive (body x)" and "for_each body xs u = Inr u'"
  shows "keys (fst u') = keys (fst u) \<union> (\<Union>x \<in> set xs. \<Union>c \<in> {c. body x ([], []) = Inr c}. keys (fst c))
       \<and> keys (snd u') = keys (snd u) \<union> (\<Union>x \<in> set xs. \<Union>c \<in> {c. body x ([], []) = Inr c}. keys (snd c))"
  using assms(2)
proof (induction xs arbitrary: u)
  case Nil
  then show ?case by simp
next
  case (Cons x xs)
  from Cons.prems obtain u1 where u1: "body x u = Inr u1" "for_each body xs u1 = Inr u'"
    by (cases "body x u") auto
  with additiveD [OF assms(1) [of x], of u] obtain c where c: "body x ([], []) = Inr c" "grows u c u1"
    by (cases "body x ([], [])") auto
  from Cons.IH [OF u1(2)] c show ?case
    by (auto simp: grows_def)
qed


lemma additive_mono:
  assumes "additive f" and "f u = Inr u'"
  shows "keys (fst u) \<subseteq> keys (fst u') \<and> keys (snd u) \<subseteq> keys (snd u')"
  using additiveD [OF assms(1), of u] assms(2)
  by (cases "f ([], [])") (auto simp: grows_def)

lemma additive_start:
  assumes "additive f" and "f u = Inr u'"
  shows "\<exists>c. f ([], []) = Inr c \<and> keys (fst c) \<subseteq> keys (fst u') \<and> keys (snd c) \<subseteq> keys (snd u')"
  using additiveD [OF assms(1), of u] assms(2)
  by (cases "f ([], [])") (auto simp: grows_def)

lemma for_each_member:
  assumes "\<And>x. additive (body x)" and "for_each body xs u = Inr u'" and "x \<in> set xs"
  shows "\<exists>c. body x ([], []) = Inr c \<and> keys (fst c) \<subseteq> keys (fst u') \<and> keys (snd c) \<subseteq> keys (snd u')"
proof -
  from for_each_additive_ok [where body = body and xs = xs and u = u, OF assms(1)] assms(2,3)
  obtain c where c: "body x ([], []) = Inr c" by blast
  with for_each_additive_keys [where body = body, OF assms(1) assms(2)] assms(3) show ?thesis
    by auto
qed

lemma for_each_invariant:
  assumes "\<And>x s s'. P s \<Longrightarrow> body x s = Inr s' \<Longrightarrow> P s'"
    and "P s" and "for_each body xs s = Inr s'"
  shows "P s'"
  using assms(2,3)
proof (induction xs arbitrary: s)
  case Nil
  then show ?case by simp
next
  case (Cons x xs)
  from Cons.prems(2) obtain s1 where "body x s = Inr s1" "for_each body xs s1 = Inr s'"
    by (cases "body x s") auto
  with Cons.IH [of s1] assms(1) [of s x s1] Cons.prems(1) show ?case by blast
qed

lemma extract_Inr:
  "extract_supabase_references_from_workflows py_str workflows = Inr u \<longleftrightarrow>
     (\<exists>ws. py_iter workflows = Inr ws \<and> for_each (extract_workflow py_str) ws ([], []) = Inr u)"
  by (simp add: extract_supabase_references_from_workflows_def bindE_Inr_iff)

lemma extract_workflow_Inr:
  "extract_workflow py_str w u = Inr u' \<longleftrightarrow>
     (\<exists>kvs ns. w = JDict kvs \<and> py_iter (lookup_default kvs ''nodes'' (JList [])) = Inr ns \<and>
        for_each (extract_node py_str) ns u = Inr u')"
  by (cases w) (simp_all add: bindE_Inr_iff)

lemma node_in_final:
  assumes "extract_supabase_references_from_workflows py_str workflows = Inr (T, F)"
    and "node \<in> set (all_nodes workflows)"
  shows "\<exists>c. extract_node py_str node ([], []) = Inr c \<and>
           keys (fst c) \<subseteq> keys T \<and> keys (snd c) \<subseteq> keys F"
proof -
  from assms(1) obtain ws where ws: "py_iter workflows = Inr ws"
    "for_each (extract_workflow py_str) ws ([], []) = Inr (T, F)"
    by (auto simp: extract_Inr)
  from assms(2) ws(1) obtain w where w: "w \<in> set ws" "node \<in> set (workflow_nodes w)"
    by (auto simp: all_nodes_def)
  from for_each_member [OF additive_extract_workflow ws(2) w(1)]
  obtain cw where cw: "extract_workflow py_str w ([], []) = Inr cw"
    "keys (fst cw) \<subseteq> keys T" "keys (snd cw) \<subseteq> keys F"
    by auto
  from cw(1) obtain kvs ns where ns: "w = JDict kvs"
    "py_iter (lookup_default kvs ''nodes'' (JList [])) = Inr ns"
    "for_each (extract_node py_str) ns ([], []) = Inr cw"
    by (auto simp: extract_workflow_Inr)
  from w(2) ns(1,2) have "node \<in> set ns" by (simp add: workflow_nodes_def)
  from for_each_member [OF additive_extract_node ns(3) this] cw(2,3)
  show ?thesis by blast
qed

lemma set_add_inv:
  "set_add v S = Inr S' \<Longrightarrow> distinct (map key S) \<Longrightarrow> distinct (map key S')"
  by (auto simp: set_add_def in_set_def split: option.splits if_splits)

lemma set_add_set:
  "set_add v S = Inr S' \<Longrightarrow> \<exists>a. atom_of v = Some a \<and> set S' \<subseteq> insert a (set S)"
  by (auto simp: set_add_def split: option.splits if_splits)

lemma json_of_atom_of: "atom_of v = Some a \<Longrightarrow> json_of a = v"
  by (cases v) auto

lemma set_add_truthy:
  assumes "set_add v S = Inr S'" and "truthy v" and "v \<noteq> JStr ''Supabase''"
    and "\<forall>a \<in> set S. truthy (json_of a) \<and> a \<noteq> AStr ''Supabase''"
  shows "\<forall>a \<in> set S'. truthy (json_of a) \<and> a \<noteq> AStr ''Supabase''"
proof -
  from set_add_set [OF assms(1)] obtain a where a: "atom_of v = Some a" "set S' \<subseteq> insert a (set S)"
    by blast
  from a(1) have "json_of a = v" by (rule json_of_atom_of)
  with assms(2,3) have "truthy (json_of a) \<and> a \<noteq> AStr ''Supabase''" by auto
  with a(2) assms(4) show ?thesis by blast
qed

lemma supabase_branch_inv:
  assumes "supabase_branch py_str params u = Inr u'" and "usage_inv u"
  shows "usage_inv u'"
proof -
  obtain T F where u: "u = (T, F)" by (cases u)
  obtain T' F' where u': "u' = (T', F')" by (cases u')
  from assms(1) obtain ps where ps: "params = JDict ps" by (cases params) (simp_all add: u)
  define tn where "tn = get_value py_str (lookup ps ''tableName'')"
  define fn where "fn = get_value py_str (py_or (lookup ps ''functionName'') (lookup ps ''rpc''))"
  from assms(1) have T': "(if truthy tn \<and> tn \<noteq> JStr ''Supabase'' then set_add tn T else Inr T) = Inr T'"
    and F': "F' = F \<or> set_add fn F = Inr F'"
    unfolding u u' ps tn_def fn_def
    by (auto simp: Let_def bindE_Inr_iff split: if_splits)
  from assms(2) have inv: "distinct (map key T)" "distinct (map key F)"
    "\<forall>a \<in> set T. truthy (json_of a) \<and> a \<noteq> AStr ''Supabase''"
    by (simp_all add: u usage_inv_def list_all_iff)
  from T' inv(1) have "distinct (map key T')"
    by (auto split: if_splits dest: set_add_inv)
  moreover from F' inv(2) have "distinct (map key F')"
    by (auto dest: set_add_inv)
  moreover from T' inv(3) have "\<forall>a \<in> set T'. truthy (json_of a) \<and> a \<noteq> AStr ''Supabase''"
    by (cases "truthy tn \<and> tn \<noteq> JStr ''Supabase''") (auto dest: set_add_truthy)
  ultimately show ?thesis by (simp add: u' usage_inv_def list_all_iff)
qed

lemma http_branch_Inr:
  "http_branch py_str params (T, F) = Inr (T', F') \<longleftrightarrow>
     (\<exists>ps m. params = JDict ps \<and>
        re_search_rpc (get_value py_str (lookup_default ps ''url'' (JStr []))) = Inr m \<and> T' = T \<and>
        (case m of None \<Rightarrow> F' = F | Some g \<Rightarrow> set_add (JStr g) F = Inr F'))"
  by (cases params) (auto simp: Let_def bindE_Inr_iff split: option.splits)

lemma http_branch_inv:
  assumes "http_branch py_str params u = Inr u'" and "usage_inv u"
  shows "usage_inv u'"
proof -
  obtain T F where u: "u = (T, F)" by (cases u)
  obtain T' F' where u': "u' = (T', F')" by (cases u')
  from assms(1) have "T' = T" and F': "F' = F \<or> (\<exists>g. set_add (JStr g) F = Inr F')"
    unfolding u u' http_branch_Inr by (auto split: option.splits)
  with assms(2) show ?thesis
    by (auto simp: u u' usage_inv_def list_all_iff dest: set_add_inv)
qed

lemma extract_node_Inr:
  "extract_node py_str node u = Inr u' \<longleftrightarrow>
     (\<exists>nd ty u1. node = JDict nd \<and> node_type nd = Inr ty \<and>
        (if sublist ''supabase'' ty then supabase_branch py_str (node_params nd) u else Inr u) = Inr u1 \<and>
        (if sublist ''httprequest'' ty \<or> sublist ''http'' ty
         then http_branch py_str (node_params nd) u1 else Inr u1) = Inr u')"
  by (cases node) (simp_all add: Let_def bindE_Inr_iff)

lemma extract_node_inv:
  assumes "extract_node py_str node u = Inr u'" and "usage_inv u"
  shows "usage_inv u'"
proof -
  from assms(1) obtain nd ty u1 where
    s1: "(if sublist ''supabase'' ty then supabase_branch py_str (node_params nd) u else Inr u) = Inr u1"
    and s2: "(if sublist ''httprequest'' ty \<or> sublist ''http'' ty
         then http_branch py_str (node_params nd) u1 else Inr u1) = Inr u'"
    unfolding extract_node_Inr by blast
  from s1 assms(2) have "usage_inv u1"
    by (cases "sublist ''supabase'' ty") (auto dest: supabase_branch_inv)
  with s2 show ?thesis
    by (cases "sublist ''httprequest'' ty \<or> sublist ''http'' ty") (auto dest: http_branch_inv)
qed

lemma extract_workflow_inv:
  assumes "extract_workflow py_str w u = Inr u'" and "usage_inv u"
  shows "usage_inv u'"
proof -
  from assms(1) obtain ns where ns: "for_each (extract_node py_str) ns u = Inr u'"
    by (auto simp: extract_workflow_Inr)
  show ?thesis
  proof (rule for_each_invariant [where P = usage_inv])
    show "usage_inv u" by (rule assms(2))
    show "for_each (extract_node py_str) ns u = Inr u'" by (rule ns)
    show "usage_inv s'" if "usage_inv s" "extract_node py_str x s = Inr s'" for x s s'
      using that by (auto dest: extract_node_inv)
  qed
qed

lemma extract_inv:
  assumes "extract_supabase_references_from_workflows py_str workflows = Inr u"
  shows "usage_inv u"
proof -
  from assms obtain ws where ws: "for_each (extract_workflow py_str) ws ([], []) = Inr u"
    by (auto simp: extract_Inr)
  show ?thesis
  proof (rule for_each_invariant [where P = usage_inv])
    show "usage_inv ([], [])" by (simp add: usage_inv_def)
    show "for_each (extract_workflow py_str) ws ([], []) = Inr u" by (rule ws)
    show "usage_inv s'" if "usage_inv s" "extract_workflow py_str x s = Inr s'" for x s s'
      using that by (auto dest: extract_workflow_inv)
  qed
qed


subsection \<open>The regular expression\<close>

lemma takeWhile_maximal:
  assumes "list_all P xs" and "ys = [] \<or> \<not> P (hd ys)"
  shows "takeWhile P (xs @ ys) = xs"
  using assms by (induction xs) (auto simp: takeWhile_eq_Nil_iff neq_Nil_conv)

lemma rpc_match_here:
  assumes "ident_start c" and "list_all ident_char ident" and "rest = [] \<or> \<not> ident_char (hd rest)"
  shows "rpc_match (''/rpc/'' @ c # ident @ rest) = Some (c # ident)"
  using assms by (simp add: rpc_match_def takeWhile_maximal)

lemma rpc_match_SomeD:
  assumes "rpc_match s = Some g"
  shows "\<exists>c q. s = ''/rpc/'' @ c # q \<and> ident_start c"
proof -
  from assms have t: "take 5 s = ''/rpc/''" and d: "drop 5 s \<noteq> []"
    by (auto simp: rpc_match_def split: if_splits list.splits)
  then obtain c q where cq: "drop 5 s = c # q" by (cases "drop 5 s") auto
  with assms t have "ident_start c" by (auto simp: rpc_match_def split: if_splits)
  moreover have "s = take 5 s @ drop 5 s" by simp
  ultimately show ?thesis using t cq by metis
qed

lemma rpc_search_skip:
  assumes "\<forall>n < length pre. rpc_match (drop n (pre @ s)) = None"
  shows "rpc_search (pre @ s) = rpc_search s"
  using assms
proof (induction pre)
  case Nil
  show ?case by simp
next
  case (Cons x pre)
  from Cons.prems have "rpc_match (drop 0 ((x # pre) @ s)) = None" by blast
  then have here: "rpc_match (x # pre @ s) = None" by simp
  have "\<forall>n < length pre. rpc_match (drop n (pre @ s)) = None"
  proof (intro allI impI)
    fix n assume "n < length pre"
    then have "Suc n < length (x # pre)" by simp
    with Cons.prems have "rpc_match (drop (Suc n) ((x # pre) @ s)) = None" by blast
    then show "rpc_match (drop n (pre @ s)) = None" by simp
  qed
  with Cons.IH here show ?case by simp
qed

lemma rpc_search_leftmost:
  assumes "ident_start c" and "list_all ident_char ident" and "rest = [] \<or> \<not> ident_char (hd rest)"
    and "\<not> (\<exists>p c' q. length p < length pre \<and> pre @ ''/rpc/'' @ c # ident @ rest = p @ ''/rpc/'' @ c' # q
            \<and> ident_start c')"
  shows "rpc_search (pre @ ''/rpc/'' @ c # ident @ rest) = Some (c # ident)"
proof -
  let ?s = "''/rpc/'' @ c # ident @ rest"
  define url where "url = pre @ ?s"
  have "\<forall>n < length pre. rpc_match (drop n url) = None"
  proof (intro allI impI)
    fix n assume n: "n < length pre"
    show "rpc_match (drop n url) = None"
    proof (rule ccontr)
      assume "rpc_match (drop n url) \<noteq> None"
      then obtain g where "rpc_match (drop n url) = Some g" by blast
      from rpc_match_SomeD [OF this] obtain c' q where
        d: "drop n url = ''/rpc/'' @ c' # q" and c': "ident_start c'" by blast
      have "url = take n url @ drop n url" by (simp only: append_take_drop_id)
      with d have "url = take n url @ ''/rpc/'' @ c' # q" by (simp only:)
      moreover from n have "length (take n url) < length pre" by (simp add: url_def)
      ultimately show False using assms(4) c' unfolding url_def by blast
    qed
  qed
  then have "\<forall>n < length pre. rpc_match (drop n (pre @ ?s)) = None"
    by (simp only: url_def)
  then have "rpc_search (pre @ ?s) = rpc_search ?s" by (rule rpc_search_skip)
  also have "\<dots> = Some (c # ident)"
    using rpc_match_here [OF assms(1-3)] by simp
  finally show ?thesis .
qed


subsection \<open>What one node adds\<close>

lemma key_truthy: "key a = key b \<Longrightarrow> truthy (json_of a) = truthy (json_of b)"
  by (cases a; cases b) (auto split: if_splits)

lemma key_AStr [simp]: "key a = AStr s \<longleftrightarrow> a = AStr s" "AStr s = key a \<longleftrightarrow> a = AStr s"
  by (cases a; auto)+

lemma atom_of_JStr: "atom_of v = Some (AStr s) \<longleftrightarrow> v = JStr s"
  by (cases v) auto

lemma supabase_adds_table:
  assumes "supabase_branch py_str (JDict ps) ([], []) = Inr u1"
    and "truthy (get_value py_str (lookup ps ''tableName''))"
    and "get_value py_str (lookup ps ''tableName'') \<noteq> JStr ''Supabase''"
  shows "\<exists>a. atom_of (get_value py_str (lookup ps ''tableName'')) = Some a \<and> key a \<in> keys (fst u1)"
  using assms
  by (auto simp: Let_def bindE_Inr_iff set_add_def in_set_def split: option.splits if_splits)

lemma supabase_adds_function:
  assumes "supabase_branch py_str (JDict ps) ([], []) = Inr u1"
    and "get_value py_str (lookup ps ''operation'') = JStr ''call''"
    and "truthy (get_value py_str (py_or (lookup ps ''functionName'') (lookup ps ''rpc'')))"
  shows "\<exists>a. atom_of (get_value py_str (py_or (lookup ps ''functionName'') (lookup ps ''rpc''))) = Some a
           \<and> key a \<in> keys (snd u1)"
  using assms
  by (auto simp: Let_def bindE_Inr_iff set_add_def in_set_def split: option.splits if_splits)

lemma http_keeps:
  assumes "http_branch py_str params u = Inr u'"
  shows "fst u' = fst u \<and> keys (snd u) \<subseteq> keys (snd u')"
proof -
  obtain T F where u: "u = (T, F)" by (cases u)
  obtain T' F' where u': "u' = (T', F')" by (cases u')
  from assms show ?thesis
    unfolding u u' http_branch_Inr
    by (auto split: option.splits dest!: set_add_Inr)
qed

lemma supabase_node_start:
  assumes "extract_node py_str (JDict nd) ([], []) = Inr c"
    and "node_type nd = Inr ty" and "sublist ''supabase'' ty"
  shows "\<exists>u1. supabase_branch py_str (node_params nd) ([], []) = Inr u1 \<and>
           fst c = fst u1 \<and> keys (snd u1) \<subseteq> keys (snd c)"
proof -
  from assms obtain u1 where
    s1: "supabase_branch py_str (node_params nd) ([], []) = Inr u1"
    and s2: "(if sublist ''httprequest'' ty \<or> sublist ''http'' ty
         then http_branch py_str (node_params nd) u1 else Inr u1) = Inr c"
    unfolding extract_node_Inr by auto
  from s2 have "fst c = fst u1 \<and> keys (snd u1) \<subseteq> keys (snd c)"
    by (cases "sublist ''httprequest'' ty \<or> sublist ''http'' ty") (auto dest: http_keeps)
  with s1 show ?thesis by blast
qed

section \<open>The reference extractor\<close>

text \<open>
  C1. Whenever the extractor returns, the string \<open>Supabase\<close> is not in \<open>tables_used\<close>,
  and for every node it visited whose lowered type contains \<open>supabase\<close> the resolved value
  of \<open>parameters.tableName\<close> is in \<open>tables_used\<close> exactly when it is non-empty (true as a
  condition) and different from the string \<open>Supabase\<close>.
\<close>

theorem supabase_table_name_rule:
  assumes "extract_supabase_references_from_workflows py_str workflows =
             Inr (tables_used, functions_used)"
  shows "\<not> in_set (AStr ''Supabase'') tables_used \<and>
    (\<forall>nd ty ps.
       JDict nd \<in> set (all_nodes workflows) \<and> node_type nd = Inr ty \<and>
       sublist ''supabase'' ty \<and> node_params nd = JDict ps \<longrightarrow>
       (set_contains (get_value py_str (lookup ps ''tableName'')) tables_used = Inr True
        \<longleftrightarrow> truthy (get_value py_str (lookup ps ''tableName'')) \<and>
            get_value py_str (lookup ps ''tableName'') \<noteq> JStr ''Supabase''))"
proof (intro conjI allI impI)
  from extract_inv [OF assms]
  have inv: "\<forall>a \<in> set tables_used. truthy (json_of a) \<and> a \<noteq> AStr ''Supabase''"
    by (simp add: usage_inv_def list_all_iff)
  show "\<not> in_set (AStr ''Supabase'') tables_used"
  proof
    assume "in_set (AStr ''Supabase'') tables_used"
    then obtain b where "b \<in> set tables_used" "AStr ''Supabase'' = key b"
      by (auto simp: in_set_def)
    with inv show False by auto
  qed
  fix nd ty ps
  assume h: "JDict nd \<in> set (all_nodes workflows) \<and> node_type nd = Inr ty \<and>
       sublist ''supabase'' ty \<and> node_params nd = JDict ps"
  let ?v = "get_value py_str (lookup ps ''tableName'')"
  show "set_contains ?v tables_used = Inr True \<longleftrightarrow> truthy ?v \<and> ?v \<noteq> JStr ''Supabase''"
  proof
    assume "set_contains ?v tables_used = Inr True"
    then obtain a where a: "atom_of ?v = Some a" "in_set a tables_used"
      by (auto simp: set_contains_def split: option.splits)
    from a(2) obtain b where b: "b \<in> set tables_used" "key a = key b"
      by (auto simp: in_set_def)
    from b(1) inv have tb: "truthy (json_of b)" "b \<noteq> AStr ''Supabase''" by auto
    from key_truthy [OF b(2)] tb(1) json_of_atom_of [OF a(1)] have "truthy ?v" by simp
    moreover have "?v \<noteq> JStr ''Supabase''"
    proof
      assume "?v = JStr ''Supabase''"
      with a(1) have "a = AStr ''Supabase''" by simp
      with b(2) tb(2) show False by (cases b) (auto split: if_splits)
    qed
    ultimately show "truthy ?v \<and> ?v \<noteq> JStr ''Supabase''" ..
  next
    assume c: "truthy ?v \<and> ?v \<noteq> JStr ''Supabase''"
    from h have h1: "JDict nd \<in> set (all_nodes workflows)" and h2: "node_type nd = Inr ty"
      and h3: "sublist ''supabase'' ty" and h4: "node_params nd = JDict ps" by blast+
    from node_in_final [OF assms h1] obtain c where
      c1: "extract_node py_str (JDict nd) ([], []) = Inr c" and c2: "keys (fst c) \<subseteq> keys tables_used"
      by blast
    from supabase_node_start [OF c1 h2 h3] obtain u1 where
      u1: "supabase_branch py_str (JDict ps) ([], []) = Inr u1" "fst c = fst u1"
      unfolding h4 by blast
    from supabase_adds_table [OF u1(1)] c obtain a where
      "atom_of ?v = Some a" "key a \<in> keys (fst u1)" by blast
    with c2 u1(2) show "set_contains ?v tables_used = Inr True"
      by (auto simp: set_contains_def in_set_keys)
  qed
qed

theorem supabase_table_name_rule_witness:
  "extract_supabase_references_from_workflows (\<lambda>v. []) example_workflows =
     Inr ([AStr ''orders''], [AStr ''refresh_orders'', AStr ''compute_totals''])
   \<and> \<not> in_set (AStr ''Supabase'') [AStr ''orders'']
   \<and> set_contains (get_value (\<lambda>v. []) (lookup example_params_orders ''tableName''))
        [AStr ''orders''] = Inr True
   \<and> set_contains (get_value (\<lambda>v. []) (lookup example_params_placeholder ''tableName''))
        [AStr ''orders''] \<noteq> Inr True"
proof -
  have e: "extract_supabase_references_from_workflows (\<lambda>v. []) example_workflows =
     Inr ([AStr ''orders''], [AStr ''refresh_orders'', AStr ''compute_totals''])"
    by code_simp
  have n1: "JDict example_node_orders \<in> set (all_nodes example_workflows) \<and>
      node_type example_node_orders = Inr ''n8n-nodes-base.supabase'' \<and>
      sublist ''supabase'' ''n8n-nodes-base.supabase'' \<and>
      node_params example_node_orders = JDict example_params_orders"
    by code_simp
  have t1: "truthy (get_value (\<lambda>v. []) (lookup example_params_orders ''tableName'')) \<and>
      get_value (\<lambda>v. []) (lookup example_params_orders ''tableName'') \<noteq> JStr ''Supabase''"
    by code_simp
  have n2: "JDict example_node_placeholder \<in> set (all_nodes example_workflows) \<and>
      node_type example_node_placeholder = Inr ''n8n-nodes-base.supabase'' \<and>
      sublist ''supabase'' ''n8n-nodes-base.supabase'' \<and>
      node_params example_node_placeholder = JDict example_params_placeholder"
    by code_simp
  have t2: "\<not> (truthy (get_value (\<lambda>v. []) (lookup example_params_placeholder ''tableName'')) \<and>
      get_value (\<lambda>v. []) (lookup example_params_placeholder ''tableName'') \<noteq> JStr ''Supabase'')"
    by code_simp
  note r = supabase_table_name_rule [OF e]
  from r have a: "\<not> in_set (AStr ''Supabase'') [AStr ''orders'']" by (rule conjunct1)
  from r n1 t1 have c1: "set_contains (get_value (\<lambda>v. []) (lookup example_params_orders ''tableName''))
        [AStr ''orders''] = Inr True" by blast
  from r n2 t2 have c2: "set_contains (get_value (\<lambda>v. []) (lookup example_params_placeholder ''tableName''))
        [AStr ''orders''] \<noteq> Inr True" by blast
  from e a c1 c2 show ?thesis by blast
qed

text \<open>
  C10. In a node whose lowered type contains \<open>supabase\<close> and whose operation resolves to
  \<open>call\<close>, a \<open>functionName\<close> that is absent, \<^verbatim>\<open>None\<close>, the empty string or any other
  false value gives way to \<open>rpc\<close>: when \<open>rpc\<close> is a non-empty string, that string is in
  \<open>functions_used\<close> whenever the extractor returns.
\<close>

theorem function_name_falls_back_to_rpc:
  assumes "extract_supabase_references_from_workflows py_str workflows =
             Inr (tables_used, functions_used)"
    and "JDict nd \<in> set (all_nodes workflows)"
    and "node_type nd = Inr ty" and "sublist ''supabase'' ty"
    and "node_params nd = JDict ps"
    and "get_value py_str (lookup ps ''operation'') = JStr ''call''"
    and "\<not> truthy (lookup ps ''functionName'')"
    and "lookup ps ''rpc'' = JStr f" and "f \<noteq> []"
  shows "in_set (AStr f) functions_used"
proof -
  from node_in_final [OF assms(1,2)] obtain c where
    c1: "extract_node py_str (JDict nd) ([], []) = Inr c" and c2: "keys (snd c) \<subseteq> keys functions_used"
    by blast
  from supabase_node_start [OF c1 assms(3,4)] obtain u1 where
    u1: "supabase_branch py_str (JDict ps) ([], []) = Inr u1" "keys (snd u1) \<subseteq> keys (snd c)"
    unfolding assms(5) by blast
  have fn: "get_value py_str (py_or (lookup ps ''functionName'') (lookup ps ''rpc'')) = JStr f"
    using assms(7,8) by (simp add: py_or_def get_value_def)
  from supabase_adds_function [OF u1(1) assms(6)] fn assms(9)
  have "AStr f \<in> keys (snd u1)" by auto
  with u1(2) c2 show ?thesis by (auto simp: in_set_keys)
qed


theorem function_name_falls_back_to_rpc_witness:
  "lookup example_params_orders ''functionName'' = JStr [] \<and>
   lookup example_params_orders ''rpc'' = JStr ''refresh_orders'' \<and>
   in_set (AStr ''refresh_orders'') [AStr ''refresh_orders'', AStr ''compute_totals'']"
proof -
  have e: "extract_supabase_references_from_workflows (\<lambda>v. []) example_workflows =
     Inr ([AStr ''orders''], [AStr ''refresh_orders'', AStr ''compute_totals''])"
    by code_simp
  have n: "JDict example_node_orders \<in> set (all_nodes example_workflows)" by code_simp
  have ty: "node_type example_node_orders = Inr ''n8n-nodes-base.supabase''" by code_simp
  have sb: "sublist ''supabase'' ''n8n-nodes-base.supabase''" by code_simp
  have ps: "node_params example_node_orders = JDict example_params_orders" by code_simp
  have op: "get_value (\<lambda>v. []) (lookup example_params_orders ''operation'') = JStr ''call''"
    by code_simp
  have fn: "lookup example_params_orders ''functionName'' = JStr []" by code_simp
  then have nt: "\<not> truthy (lookup example_params_orders ''functionName'')" by simp
  have rpc: "lookup example_params_orders ''rpc'' = JStr ''refresh_orders''" by code_simp
  have ne: "''refresh_orders'' \<noteq> []" by simp
  from function_name_falls_back_to_rpc [OF e n ty sb ps op nt rpc ne] fn rpc
  show ?thesis by blast
qed

lemma rpc_match_None_iff:
  "rpc_match s = None \<longleftrightarrow> \<not> (take 5 s = ''/rpc/'' \<and> 5 < length s \<and> ident_start (s ! 5))"
proof (cases "drop 5 s")
  case Nil
  then show ?thesis by (simp add: rpc_match_def)
next
  case (Cons c cs)
  then have "5 < length s" by (cases "5 < length s") auto
  moreover from this have "s ! 5 = hd (drop 5 s)" by (simp add: hd_drop_conv_nth)
  ultimately show ?thesis using Cons by (simp add: rpc_match_def)
qed

lemma rpc_search_first:
  assumes "url = pre @ ''/rpc/'' @ c # ident @ rest"
    and "ident_start c" and "list_all ident_char ident" and "rest = [] \<or> \<not> ident_char (hd rest)"
    and "\<forall>n < length pre. \<not> (take 5 (drop n url) = ''/rpc/'' \<and> n + 5 < length url \<and>
            ident_start (url ! (n + 5)))"
  shows "rpc_search url = Some (c # ident)"
proof -
  have "\<forall>n < length pre. rpc_match (drop n url) = None"
  proof (intro allI impI)
    fix n assume n: "n < length pre"
    with assms(5) have *: "\<not> (take 5 (drop n url) = ''/rpc/'' \<and> n + 5 < length url \<and>
            ident_start (url ! (n + 5)))" by blast
    have "5 < length (drop n url) \<longleftrightarrow> n + 5 < length url" by auto
    moreover have "n + 5 < length url \<Longrightarrow> drop n url ! 5 = url ! (n + 5)" by simp
    ultimately show "rpc_match (drop n url) = None"
      using * unfolding rpc_match_None_iff by metis
  qed
  then have "rpc_search url = rpc_search (''/rpc/'' @ c # ident @ rest)"
    unfolding assms(1) by (rule rpc_search_skip)
  also have "\<dots> = Some (c # ident)"
    using rpc_match_here [OF assms(2-4)] by simp
  finally show ?thesis .
qed

text \<open>
  C2. Take a node the extractor visited whose lowered type contains \<open>httprequest\<close> or
  \<open>http\<close>, and let its \<open>parameters.url\<close> (the empty string when the key is absent) resolve
  to a string in which \<open>/rpc/\<close>, an identifier start and a maximal run of identifier characters
  occur, with no such occurrence starting further left. Then that identifier is in
  \<open>functions_used\<close> whenever the extractor returns, the node's HTTP step adds that identifier
  and nothing else, and the search of \<open>https://x/rest/v1/rpc/compute_totals?x=1\<close> captures
  \<open>compute_totals\<close>.
\<close>

theorem http_url_rpc_rule:
  assumes "extract_supabase_references_from_workflows py_str workflows =
             Inr (tables_used, functions_used)"
    and "JDict nd \<in> set (all_nodes workflows)"
    and "node_type nd = Inr ty" and "sublist ''httprequest'' ty \<or> sublist ''http'' ty"
    and "node_params nd = JDict ps"
    and "get_value py_str (lookup_default ps ''url'' (JStr [])) = JStr url"
    and "url = pre @ ''/rpc/'' @ c # ident @ rest"
    and "ident_start c" and "list_all ident_char ident" and "rest = [] \<or> \<not> ident_char (hd rest)"
    and "\<forall>n < length pre. \<not> (take 5 (drop n url) = ''/rpc/'' \<and> n + 5 < length url \<and>
            ident_start (url ! (n + 5)))"
  shows "in_set (AStr (c # ident)) functions_used \<and>
    (\<forall>T F. http_branch py_str (JDict ps) (T, F) =
       Inr (T, if in_set (AStr (c # ident)) F then F else F @ [AStr (c # ident)])) \<and>
    rpc_search ''https://x/rest/v1/rpc/compute_totals?x=1'' = Some ''compute_totals''"
proof (intro conjI allI)
  have m: "re_search_rpc (get_value py_str (lookup_default ps ''url'' (JStr []))) = Inr (Some (c # ident))"
    unfolding assms(6) using rpc_search_first [OF assms(7-11)] by simp
  show step: "http_branch py_str (JDict ps) (T, F) =
       Inr (T, if in_set (AStr (c # ident)) F then F else F @ [AStr (c # ident)])" for T F
    using m by (simp add: set_add_def)
  from node_in_final [OF assms(1,2)] obtain r where
    r1: "extract_node py_str (JDict nd) ([], []) = Inr r" and r2: "keys (snd r) \<subseteq> keys functions_used"
    by blast
  from r1 assms(3,4) obtain u1 where "http_branch py_str (node_params nd) u1 = Inr r"
    unfolding extract_node_Inr by auto
  with step [of "fst u1" "snd u1"] have "AStr (c # ident) \<in> keys (snd r)"
    unfolding assms(5) by (auto simp: in_set_keys split: if_splits)
  with r2 show "in_set (AStr (c # ident)) functions_used"
    by (auto simp: in_set_keys)
  show "rpc_search ''https://x/rest/v1/rpc/compute_totals?x=1'' = Some ''compute_totals''"
    by (simp add: rpc_match_def ident_start_def ident_char_def)
qed

lemma upt_allD: "(\<forall>n \<in> set [0..<k]. P n) \<Longrightarrow> \<forall>n<k. P n"
  by simp

theorem http_url_rpc_rule_witness:
  "get_value (\<lambda>v. []) (lookup_default example_params_http ''url'' (JStr [])) =
     JStr ''https://x/rest/v1/rpc/compute_totals?x=1'' \<and>
   in_set (AStr ''compute_totals'') [AStr ''refresh_orders'', AStr ''compute_totals'']"
proof -
  have e: "extract_supabase_references_from_workflows (\<lambda>v. []) example_workflows =
     Inr ([AStr ''orders''], [AStr ''refresh_orders'', AStr ''compute_totals''])"
    by code_simp
  have n: "JDict example_node_http \<in> set (all_nodes example_workflows)" by code_simp
  have ty: "node_type example_node_http = Inr ''n8n-nodes-base.httprequest''" by code_simp
  have ht: "sublist ''httprequest'' ''n8n-nodes-base.httprequest'' \<or>
      sublist ''http'' ''n8n-nodes-base.httprequest''" by code_simp
  have ps: "node_params example_node_http = JDict example_params_http" by code_simp
  have url: "get_value (\<lambda>v. []) (lookup_default example_params_http ''url'' (JStr [])) =
      JStr ''https://x/rest/v1/rpc/compute_totals?x=1''" by code_simp
  have split: "''https://x/rest/v1/rpc/compute_totals?x=1'' =
      ''https://x/rest/v1'' @ ''/rpc/'' @ CHR ''c'' # ''ompute_totals'' @ ''?x=1''" by simp
  have c: "ident_start CHR ''c''" by code_simp
  have ident: "list_all ident_char ''ompute_totals''" by code_simp
  have rest: "''?x=1'' = [] \<or> \<not> ident_char (hd ''?x=1'')" by code_simp
  have len: "length ''https://x/rest/v1'' = 17" by simp
  have all: "\<forall>n \<in> set [0..<17]. \<not> (take 5 (drop n ''https://x/rest/v1/rpc/compute_totals?x=1'') = ''/rpc/'' \<and>
      n + 5 < length ''https://x/rest/v1/rpc/compute_totals?x=1'' \<and>
      ident_start (''https://x/rest/v1/rpc/compute_totals?x=1'' ! (n + 5)))"
    by code_simp
  have left: "\<forall>n < length ''https://x/rest/v1''.
      \<not> (take 5 (drop n ''https://x/rest/v1/rpc/compute_totals?x=1'') = ''/rpc/'' \<and>
      n + 5 < length ''https://x/rest/v1/rpc/compute_totals?x=1'' \<and>
      ident_start (''https://x/rest/v1/rpc/compute_totals?x=1'' ! (n + 5)))"
    unfolding len by (rule upt_allD) (rule all)
  have i: "in_set (AStr ''compute_totals'') [AStr ''refresh_orders'', AStr ''compute_totals'']"
    by (rule conjunct1 [OF http_url_rpc_rule [OF e n ty ht ps url split c ident rest left]])
  from url i show ?thesis by (rule conjI)
qed

text \<open>
  C6. \<open>get_value\<close> maps \<^verbatim>\<open>None\<close> to the empty string and a string to itself; on a dict it
  returns \<open>cachedResultName\<close> when that is present (true as a condition), else \<open>value\<close> when
  that is, else the empty string. The single node of the specification, with a cached table
  name \<open>orders\<close>, operation \<open>call\<close> and function name \<open>refresh_orders\<close>, gives
  \<open>tables_used = {orders}\<close> and \<open>functions_used = {refresh_orders}\<close>.
\<close>

theorem get_value_resolution:
  "get_value py_str JNull = JStr [] \<and>
   get_value py_str (JStr s) = JStr s \<and>
   get_value py_str (JDict kvs) =
     (if truthy (lookup kvs ''cachedResultName'') then lookup kvs ''cachedResultName''
      else if truthy (lookup kvs ''value'') then lookup kvs ''value''
      else JStr []) \<and>
   extract_supabase_references_from_workflows py_str
     (JList [JDict [(''nodes'', JList
        [JDict [(''type'', JStr ''n8n-nodes-base.supabase''),
                (''parameters'', JDict
                   [(''tableName'', JDict [(''cachedResultName'', JStr ''orders'')]),
                    (''operation'', JStr ''call''),
                    (''functionName'', JStr ''refresh_orders'')])]])]])
     = Inr ([AStr ''orders''], [AStr ''refresh_orders''])"
proof (intro conjI)
  show "get_value py_str JNull = JStr []" by (simp add: get_value_def)
  show "get_value py_str (JStr s) = JStr s" by (simp add: get_value_def)
  show "get_value py_str (JDict kvs) =
     (if truthy (lookup kvs ''cachedResultName'') then lookup kvs ''cachedResultName''
      else if truthy (lookup kvs ''value'') then lookup kvs ''value''
      else JStr [])"
    by (simp add: get_value_def py_or_def)
  show "extract_supabase_references_from_workflows py_str
     (JList [JDict [(''nodes'', JList
        [JDict [(''type'', JStr ''n8n-nodes-base.supabase''),
                (''parameters'', JDict
                   [(''tableName'', JDict [(''cachedResultName'', JStr ''orders'')]),
                    (''operation'', JStr ''call''),
                    (''functionName'', JStr ''refresh_orders'')])]])]])
     = Inr ([AStr ''orders''], [AStr ''refresh_orders''])"
    by (simp add: extract_supabase_references_from_workflows_def node_type_def node_params_def
          lookup_def lookup_default_def py_or_def lower_char_def sublist_Cons_right get_value_def
          set_add_def in_set_def)
qed

text \<open>
  C8. A node without the key \<open>parameters\<close> is processed as the same node with
  \<open>parameters\<close> the empty dict, and processing it returns the usage sets unchanged whenever
  its type is a string, \<^verbatim>\<open>None\<close> or absent. A node whose \<open>type\<close> is absent or \<^verbatim>\<open>None\<close>
  has the empty string as its lowered type, which contains neither \<open>supabase\<close> nor \<open>http\<close>,
  and processing it returns the usage sets unchanged.
\<close>

theorem missing_fields_are_tolerated:
  "(map_of nd ''parameters'' = None \<longrightarrow>
      node_params nd = JDict [] \<and>
      extract_node py_str (JDict nd) u =
        extract_node py_str (JDict ((''parameters'', JDict []) # nd)) u) \<and>
   (map_of nd ''parameters'' = None \<and> node_type nd = Inr ty \<longrightarrow>
      extract_node py_str (JDict nd) u = Inr u) \<and>
   (map_of nd ''type'' = None \<or> map_of nd ''type'' = Some JNull \<longrightarrow>
      node_type nd = Inr [] \<and> \<not> sublist ''supabase'' [] \<and>
      \<not> (sublist ''httprequest'' [] \<or> sublist ''http'' []) \<and>
      extract_node py_str (JDict nd) u = Inr u)"
proof (intro conjI impI)
  obtain T F where u: "u = (T, F)" by (cases u)
  {
    assume a: "map_of nd ''parameters'' = None"
    then show "node_params nd = JDict []" by (simp add: node_params_def lookup_default_def)
    have "node_type ((''parameters'', JDict []) # nd) = node_type nd"
      by (simp add: node_type_def lookup_def)
    moreover have "node_params ((''parameters'', JDict []) # nd) = node_params nd"
      using a by (simp add: node_params_def lookup_default_def)
    ultimately show "extract_node py_str (JDict nd) u =
        extract_node py_str (JDict ((''parameters'', JDict []) # nd)) u"
      by simp
  }
  {
    assume a: "map_of nd ''parameters'' = None \<and> node_type nd = Inr ty"
    then have p: "node_params nd = JDict []" by (simp add: node_params_def lookup_default_def)
    have "supabase_branch py_str (JDict []) (T, F) = Inr (T, F)"
      by (simp add: lookup_def get_value_def py_or_def)
    moreover have "http_branch py_str (JDict []) (T, F) = Inr (T, F)"
      by (simp add: lookup_default_def get_value_def)
    ultimately show "extract_node py_str (JDict nd) u = Inr u"
      using a by (simp add: p u Let_def del: supabase_branch.simps http_branch.simps)
  }
  {
    assume "map_of nd ''type'' = None \<or> map_of nd ''type'' = Some JNull"
    then show ty: "node_type nd = Inr []"
      by (auto simp: node_type_def lookup_def py_or_def)
    show "\<not> sublist ''supabase'' []" by simp
    show "\<not> (sublist ''httprequest'' [] \<or> sublist ''http'' [])" by simp
    from ty show "extract_node py_str (JDict nd) u = Inr u" by simp
  }
qed

theorem missing_fields_are_tolerated_witness:
  "map_of [(''name'', JStr ''Start'')] ''parameters'' = None \<and>
   map_of [(''name'', JStr ''Start'')] ''type'' = None \<and>
   node_params [(''name'', JStr ''Start'')] = JDict [] \<and>
   extract_node (\<lambda>v. []) (JDict [(''name'', JStr ''Start'')]) ([AStr ''orders''], []) =
     Inr ([AStr ''orders''], []) \<and>
   extract_node (\<lambda>v. []) (JDict [(''type'', JStr ''supabase'')]) ([AStr ''orders''], []) =
     Inr ([AStr ''orders''], [])"
proof -
  have p: "map_of [(''name'', JStr ''Start'')] ''parameters'' = None" by simp
  have t: "map_of [(''name'', JStr ''Start'')] ''type'' = None" by simp
  have p2: "map_of [(''type'', JStr ''supabase'')] ''parameters'' = None \<and>
      node_type [(''type'', JStr ''supabase'')] = Inr ''supabase''" by code_simp
  note r1 = missing_fields_are_tolerated
    [of "[(''name'', JStr ''Start'')]" "\<lambda>v. []" "([AStr ''orders''], [])" "[]"]
  note r2 = missing_fields_are_tolerated
    [of "[(''type'', JStr ''supabase'')]" "\<lambda>v. []" "([AStr ''orders''], [])" "''supabase''"]
  from r1 p have a: "node_params [(''name'', JStr ''Start'')] = JDict []" by blast
  from r1 t have b: "extract_node (\<lambda>v. []) (JDict [(''name'', JStr ''Start'')]) ([AStr ''orders''], []) =
     Inr ([AStr ''orders''], [])" by blast
  from r2 p2 have c: "extract_node (\<lambda>v. []) (JDict [(''type'', JStr ''supabase'')]) ([AStr ''orders''], []) =
     Inr ([AStr ''orders''], [])" by blast
  from p t a b c show ?thesis by blast
qed

section \<open>The reconciler\<close>

lemma enrich_table_ok:
  "list_all catalog_record ts \<Longrightarrow>
     for_each (enrich_table S) ts acc = Inr (acc @ map (enriched_table S) ts)"
proof (induction ts arbitrary: acc)
  case Nil
  show ?case by simp
next
  case (Cons t ts)
  from Cons.prems obtain kvs a where t: "t = JDict kvs" "atom_of (lookup kvs ''name'') = Some a"
    by (cases t) (auto simp: catalog_record_def)
  then have "enrich_table S t acc = Inr (acc @ [enriched_table S t])"
    by (simp add: set_contains_def enriched_table_def member_def)
  with Cons show ?case by simp
qed

lemma enrich_table_Inr:
  "for_each (enrich_table S) ts acc = Inr r \<Longrightarrow> list_all catalog_record ts"
proof (induction ts arbitrary: acc)
  case Nil
  show ?case by simp
next
  case (Cons t ts)
  from Cons.prems obtain acc1 where s: "enrich_table S t acc = Inr acc1"
    "for_each (enrich_table S) ts acc1 = Inr r"
    by (cases "enrich_table S t acc") auto
  from s(1) have "catalog_record t"
    by (cases t) (auto simp: catalog_record_def set_contains_def bindE_Inr_iff split: option.splits)
  with Cons.IH [OF s(2)] show ?case by simp
qed

lemma enrich_function_ok:
  "list_all catalog_record fs \<Longrightarrow>
     for_each (enrich_function S) fs acc = Inr (acc @ map (enriched_function S) fs)"
proof (induction fs arbitrary: acc)
  case Nil
  show ?case by simp
next
  case (Cons t ts)
  from Cons.prems obtain kvs a where t: "t = JDict kvs" "atom_of (lookup kvs ''name'') = Some a"
    by (cases t) (auto simp: catalog_record_def)
  then have "enrich_function S t acc = Inr (acc @ [enriched_function S t])"
    by (simp add: set_contains_def enriched_function_def member_def)
  with Cons show ?case by simp
qed

lemma enrich_function_Inr:
  "for_each (enrich_function S) fs acc = Inr r \<Longrightarrow> list_all catalog_record fs"
proof (induction fs arbitrary: acc)
  case Nil
  show ?case by simp
next
  case (Cons t ts)
  from Cons.prems obtain acc1 where s: "enrich_function S t acc = Inr acc1"
    "for_each (enrich_function S) ts acc1 = Inr r"
    by (cases "enrich_function S t acc") auto
  from s(1) have "catalog_record t"
    by (cases t) (auto simp: catalog_record_def set_contains_def bindE_Inr_iff split: option.splits)
  with Cons.IH [OF s(2)] show ?case by simp
qed

lemma member_keys: "keys S = keys S' \<Longrightarrow> member v S = member v S'"
  by (simp add: member_def set_contains_def in_set_keys split: option.splits)

lemma reconcile_Inr:
  "reconcile py_str now workflows supabase_data = Inr r \<longleftrightarrow>
     (\<exists>T F pt pf sd ts fs.
        extract_supabase_references_from_workflows py_str workflows = Inr (T, F) \<and>
        py_sorted T = Inr pt \<and> py_sorted F = Inr pf \<and> supabase_data = JDict sd \<and>
        py_iter (lookup_default sd ''tables'' (JList [])) = Inr ts \<and> list_all catalog_record ts \<and>
        py_iter (lookup_default sd ''functions'' (JList [])) = Inr fs \<and> list_all catalog_record fs \<and>
        stack_data now workflows (map (enriched_table T) ts) (map (enriched_function F) fs) T F = Inr r)"
  (is "?L \<longleftrightarrow> ?R")
proof
  assume ?L
  then obtain T F pt pf sd ts ets fs efs where
    e: "extract_supabase_references_from_workflows py_str workflows = Inr (T, F)"
    and s: "py_sorted T = Inr pt" "py_sorted F = Inr pf" and sd: "supabase_data = JDict sd"
    and ts: "py_iter (lookup_default sd ''tables'' (JList [])) = Inr ts"
      "for_each (enrich_table T) ts [] = Inr ets"
    and fs: "py_iter (lookup_default sd ''functions'' (JList [])) = Inr fs"
      "for_each (enrich_function F) fs [] = Inr efs"
    and r: "stack_data now workflows ets efs T F = Inr r"
    unfolding reconcile_def
    by (cases supabase_data) (auto simp: bindE_Inr_iff)
  from ts(2) have ct: "list_all catalog_record ts" by (rule enrich_table_Inr)
  from fs(2) have cf: "list_all catalog_record fs" by (rule enrich_function_Inr)
  from ts(2) enrich_table_ok [OF ct, of T "[]"] have "ets = map (enriched_table T) ts" by simp
  moreover from fs(2) enrich_function_ok [OF cf, of F "[]"] have "efs = map (enriched_function F) fs"
    by simp
  ultimately show ?R using e s sd ts(1) fs(1) ct cf r by blast
next
  assume ?R
  then show ?L
    unfolding reconcile_def
    by (auto simp: enrich_table_ok enrich_function_ok)
qed


subsection \<open>Permuting the workflows\<close>

lemma extract_perm:
  assumes "extract_supabase_references_from_workflows py_str (JList ws) = Inr (T, F)"
    and "set ws' = set ws"
  shows "\<exists>T' F'. extract_supabase_references_from_workflows py_str (JList ws') = Inr (T', F') \<and>
           keys T' = keys T \<and> keys F' = keys F"
proof -
  from assms(1) have r: "for_each (extract_workflow py_str) ws ([], []) = Inr (T, F)"
    by (simp add: extract_Inr)
  with for_each_additive_ok [where body = "extract_workflow py_str" and xs = ws and u = "([], [])",
      OF additive_extract_workflow]
  have "\<forall>x \<in> set ws. \<exists>c. extract_workflow py_str x ([], []) = Inr c" by blast
  with assms(2) have "\<forall>x \<in> set ws'. \<exists>c. extract_workflow py_str x ([], []) = Inr c" by simp
  with for_each_additive_ok [where body = "extract_workflow py_str" and xs = ws' and u = "([], [])",
      OF additive_extract_workflow]
  obtain u' where r': "for_each (extract_workflow py_str) ws' ([], []) = Inr u'" by blast
  from for_each_additive_keys [where body = "extract_workflow py_str", OF additive_extract_workflow r]
    for_each_additive_keys [where body = "extract_workflow py_str", OF additive_extract_workflow r']
    assms(2)
  have "keys (fst u') = keys T \<and> keys (snd u') = keys F" by simp
  with r' show ?thesis by (cases u') (simp add: extract_Inr)
qed

lemma length_keys: "distinct (map key S) \<Longrightarrow> length S = card (keys S)"
  using distinct_card [of "map key S"] by (simp add: keys_def)

lemma atom_num_key [simp]: "atom_num (key a) = atom_num a"
  by (cases a) auto

lemma atom_str_key [simp]: "atom_str (key a) = atom_str a"
  by (cases a) auto

lemma py_sorted_ok:
  "(\<exists>r. py_sorted S = Inr r) \<longleftrightarrow>
     length S \<le> 1 \<or> (\<forall>k \<in> keys S. atom_num k \<noteq> None) \<or> (\<forall>k \<in> keys S. atom_str k \<noteq> None)"
  by (auto simp: py_sorted_def list_all_iff keys_def)

lemma py_sorted_keys:
  assumes "py_sorted S = Inr r" and "distinct (map key S)" and "distinct (map key S')"
    and "keys S' = keys S"
  shows "\<exists>r'. py_sorted S' = Inr r'"
proof -
  from assms(2-4) have "length S' = length S" by (simp add: length_keys)
  moreover from assms(1) have "length S \<le> 1 \<or> (\<forall>k \<in> keys S. atom_num k \<noteq> None) \<or>
      (\<forall>k \<in> keys S. atom_str k \<noteq> None)"
    using py_sorted_ok [of S] by blast
  ultimately have "length S' \<le> 1 \<or> (\<forall>k \<in> keys S'. atom_num k \<noteq> None) \<or>
      (\<forall>k \<in> keys S'. atom_str k \<noteq> None)"
    by (simp only: assms(4))
  then show ?thesis using py_sorted_ok [of S'] by blast
qed

lemma stack_data_Inr:
  "stack_data now workflows ets efs T F = Inr r \<longleftrightarrow>
     (\<exists>n. py_len workflows = Inr n \<and>
        r = JDict
         [(''metadata'', JDict
             [(''generated_at'', JStr now),
              (''workflow_count'', JInt n),
              (''table_count'', JInt (int (length ets))),
              (''function_count'', JInt (int (length efs))),
              (''tables_used_by_n8n'', JInt (int (length T))),
              (''functions_used_by_n8n'', JInt (int (length F)))]),
          (''workflows'', workflows),
          (''supabase'', JDict [(''tables'', JList ets), (''functions'', JList efs)])])"
  by (auto simp: stack_data_def bindE_Inr_iff)

lemma field_simps [simp]:
  "field (JDict kvs) k = lookup kvs k"
  by (simp add: field_def)

lemma lookup_Cons [simp]:
  "lookup ((k, v) # kvs) k' = (if k = k' then v else lookup kvs k')"
  "lookup [] k' = JNull"
  by (simp_all add: lookup_def)

lemma enriched_table_keys: "keys S = keys S' \<Longrightarrow> enriched_table S = enriched_table S'"
  by (rule ext) (simp add: enriched_table_def member_keys [of S S'] split: json.splits)

lemma enriched_function_keys: "keys S = keys S' \<Longrightarrow> enriched_function S = enriched_function S'"
  by (rule ext) (simp add: enriched_function_def member_keys [of S S'] split: json.splits)

lemma reconcile_perm_workflows:
  assumes "reconcile py_str now (JList ws) cat = Inr r" and "mset ws' = mset ws"
  shows "\<exists>r'. reconcile py_str now (JList ws') cat = Inr r' \<and>
           field r' ''metadata'' = field r ''metadata'' \<and>
           field r' ''supabase'' = field r ''supabase'' \<and>
           field r' ''workflows'' = JList ws' \<and> field r ''workflows'' = JList ws"
proof -
  from assms(1) obtain T F pt pf sd ts fs where
    e: "extract_supabase_references_from_workflows py_str (JList ws) = Inr (T, F)"
    and s: "py_sorted T = Inr pt" "py_sorted F = Inr pf" and sd: "cat = JDict sd"
    and ts: "py_iter (lookup_default sd ''tables'' (JList [])) = Inr ts" "list_all catalog_record ts"
    and fs: "py_iter (lookup_default sd ''functions'' (JList [])) = Inr fs" "list_all catalog_record fs"
    and r: "stack_data now (JList ws) (map (enriched_table T) ts) (map (enriched_function F) fs) T F = Inr r"
    unfolding reconcile_Inr by blast
  from assms(2) have set: "set ws' = set ws" by (rule mset_eq_setD)
  from assms(2) have len: "length ws' = length ws" by (rule mset_eq_length)
  from extract_perm [OF e set] obtain T' F' where
    e': "extract_supabase_references_from_workflows py_str (JList ws') = Inr (T', F')"
    and k: "keys T' = keys T" "keys F' = keys F" by blast
  from extract_inv [OF e] extract_inv [OF e'] have d: "distinct (map key T)" "distinct (map key F)"
    "distinct (map key T')" "distinct (map key F')"
    by (simp_all add: usage_inv_def)
  from py_sorted_keys [OF s(1) d(1) d(3) k(1)] obtain pt' where s1: "py_sorted T' = Inr pt'" by blast
  from py_sorted_keys [OF s(2) d(2) d(4) k(2)] obtain pf' where s2: "py_sorted F' = Inr pf'" by blast
  from d k have l: "length T' = length T" "length F' = length F" by (simp_all add: length_keys)
  define r' where "r' = JDict
         [(''metadata'', JDict
             [(''generated_at'', JStr now),
              (''workflow_count'', JInt (int (length ws'))),
              (''table_count'', JInt (int (length (map (enriched_table T') ts)))),
              (''function_count'', JInt (int (length (map (enriched_function F') fs)))),
              (''tables_used_by_n8n'', JInt (int (length T'))),
              (''functions_used_by_n8n'', JInt (int (length F')))]),
          (''workflows'', JList ws'),
          (''supabase'', JDict [(''tables'', JList (map (enriched_table T') ts)),
                               (''functions'', JList (map (enriched_function F') fs))])]"
  have r'1: "stack_data now (JList ws') (map (enriched_table T') ts) (map (enriched_function F') fs) T' F'
      = Inr r'"
    unfolding stack_data_Inr r'_def by simp
  from e' s1 s2 sd ts fs r'1 have "reconcile py_str now (JList ws') cat = Inr r'"
    unfolding reconcile_Inr by blast
  moreover from r have "r = JDict
         [(''metadata'', JDict
             [(''generated_at'', JStr now),
              (''workflow_count'', JInt (int (length ws))),
              (''table_count'', JInt (int (length (map (enriched_table T) ts)))),
              (''function_count'', JInt (int (length (map (enriched_function F) fs)))),
              (''tables_used_by_n8n'', JInt (int (length T))),
              (''functions_used_by_n8n'', JInt (int (length F)))]),
          (''workflows'', JList ws),
          (''supabase'', JDict [(''tables'', JList (map (enriched_table T) ts)),
                               (''functions'', JList (map (enriched_function F) fs))])]"
    unfolding stack_data_Inr by simp
  ultimately show ?thesis
    using len l enriched_table_keys [OF k(1)] enriched_function_keys [OF k(2)]
    by (simp add: r'_def)
qed


lemma reconcile_perm_catalog:
  assumes "reconcile py_str now workflows (JDict sd) = Inr r"
    and "lookup_default sd ''tables'' (JList []) = JList ts"
    and "lookup_default sd' ''tables'' (JList []) = JList ts'" and "mset ts' = mset ts"
    and "lookup_default sd ''functions'' (JList []) = JList fs"
    and "lookup_default sd' ''functions'' (JList []) = JList fs'" and "mset fs' = mset fs"
  shows "\<exists>r' T F. extract_supabase_references_from_workflows py_str workflows = Inr (T, F) \<and>
           reconcile py_str now workflows (JDict sd') = Inr r' \<and>
           field r' ''metadata'' = field r ''metadata'' \<and>
           field r' ''workflows'' = field r ''workflows'' \<and>
           field (field r ''supabase'') ''tables'' = JList (map (enriched_table T) ts) \<and>
           field (field r' ''supabase'') ''tables'' = JList (map (enriched_table T) ts') \<and>
           field (field r ''supabase'') ''functions'' = JList (map (enriched_function F) fs) \<and>
           field (field r' ''supabase'') ''functions'' = JList (map (enriched_function F) fs')"
proof -
  from assms(1) obtain T F pt pf where
    e: "extract_supabase_references_from_workflows py_str workflows = Inr (T, F)"
    and s: "py_sorted T = Inr pt" "py_sorted F = Inr pf"
    and ts: "list_all catalog_record ts" and fs: "list_all catalog_record fs"
    and r: "stack_data now workflows (map (enriched_table T) ts) (map (enriched_function F) fs) T F = Inr r"
    unfolding reconcile_Inr using assms(2,5) by auto
  from r obtain n where n: "py_len workflows = Inr n" and r_eq: "r = JDict
         [(''metadata'', JDict
             [(''generated_at'', JStr now),
              (''workflow_count'', JInt n),
              (''table_count'', JInt (int (length (map (enriched_table T) ts)))),
              (''function_count'', JInt (int (length (map (enriched_function F) fs)))),
              (''tables_used_by_n8n'', JInt (int (length T))),
              (''functions_used_by_n8n'', JInt (int (length F)))]),
          (''workflows'', workflows),
          (''supabase'', JDict [(''tables'', JList (map (enriched_table T) ts)),
                               (''functions'', JList (map (enriched_function F) fs))])]"
    unfolding stack_data_Inr by blast
  from assms(4) ts have ts': "list_all catalog_record ts'"
    using mset_eq_setD [OF assms(4)] by (simp add: list_all_iff)
  from assms(7) fs have fs': "list_all catalog_record fs'"
    using mset_eq_setD [OF assms(7)] by (simp add: list_all_iff)
  define r' where "r' = JDict
         [(''metadata'', JDict
             [(''generated_at'', JStr now),
              (''workflow_count'', JInt n),
              (''table_count'', JInt (int (length (map (enriched_table T) ts')))),
              (''function_count'', JInt (int (length (map (enriched_function F) fs')))),
              (''tables_used_by_n8n'', JInt (int (length T))),
              (''functions_used_by_n8n'', JInt (int (length F)))]),
          (''workflows'', workflows),
          (''supabase'', JDict [(''tables'', JList (map (enriched_table T) ts')),
                               (''functions'', JList (map (enriched_function F) fs'))])]"
  have "stack_data now workflows (map (enriched_table T) ts') (map (enriched_function F) fs') T F = Inr r'"
    unfolding stack_data_Inr r'_def using n by simp
  with e s ts' fs' assms(3,6) have "reconcile py_str now workflows (JDict sd') = Inr r'"
    unfolding reconcile_Inr by auto
  moreover have "length ts' = length ts" "length fs' = length fs"
    using mset_eq_length [OF assms(4)] mset_eq_length [OF assms(7)] by simp_all
  ultimately show ?thesis using e by (simp add: r_eq r'_def)
qed

text \<open>
  C4, as amended. When the reconciler returns a report for a list of workflows and a catalog,
  it returns one for every permutation of the workflows, with the same \<open>metadata\<close> and
  \<open>supabase\<close> fields and with \<open>workflows\<close> the permuted list as given; and for a catalog
  whose tables and functions lists are permutations of the original ones it returns a report
  with the same \<open>metadata\<close> and \<open>workflows\<close> fields whose tables and functions lists hold
  the entries of the original report in the order of the permuted catalog.
\<close>

theorem report_under_permutations:
  assumes "reconcile py_str now (JList ws) (JDict sd) = Inr r"
  shows "(\<forall>ws'. mset ws' = mset ws \<longrightarrow>
           (\<exists>r'. reconcile py_str now (JList ws') (JDict sd) = Inr r' \<and>
              field r' ''metadata'' = field r ''metadata'' \<and>
              field r' ''supabase'' = field r ''supabase'' \<and>
              field r' ''workflows'' = JList ws' \<and> field r ''workflows'' = JList ws)) \<and>
    (\<forall>sd' ts ts' fs fs'.
        lookup_default sd ''tables'' (JList []) = JList ts \<and>
        lookup_default sd' ''tables'' (JList []) = JList ts' \<and> mset ts' = mset ts \<and>
        lookup_default sd ''functions'' (JList []) = JList fs \<and>
        lookup_default sd' ''functions'' (JList []) = JList fs' \<and> mset fs' = mset fs \<longrightarrow>
        (\<exists>r' T F. extract_supabase_references_from_workflows py_str (JList ws) = Inr (T, F) \<and>
           reconcile py_str now (JList ws) (JDict sd') = Inr r' \<and>
           field r' ''metadata'' = field r ''metadata'' \<and>
           field r' ''workflows'' = field r ''workflows'' \<and>
           field (field r ''supabase'') ''tables'' = JList (map (enriched_table T) ts) \<and>
           field (field r' ''supabase'') ''tables'' = JList (map (enriched_table T) ts') \<and>
           field (field r ''supabase'') ''functions'' = JList (map (enriched_function F) fs) \<and>
           field (field r' ''supabase'') ''functions'' = JList (map (enriched_function F) fs')))"
proof (intro conjI allI impI)
  fix ws' assume "mset ws' = mset ws"
  with assms show "\<exists>r'. reconcile py_str now (JList ws') (JDict sd) = Inr r' \<and>
              field r' ''metadata'' = field r ''metadata'' \<and>
              field r' ''supabase'' = field r ''supabase'' \<and>
              field r' ''workflows'' = JList ws' \<and> field r ''workflows'' = JList ws"
    by (rule reconcile_perm_workflows)
next
  fix sd' ts ts' fs fs'
  assume h: "lookup_default sd ''tables'' (JList []) = JList ts \<and>
        lookup_default sd' ''tables'' (JList []) = JList ts' \<and> mset ts' = mset ts \<and>
        lookup_default sd ''functions'' (JList []) = JList fs \<and>
        lookup_default sd' ''functions'' (JList []) = JList fs' \<and> mset fs' = mset fs"
  then have h1: "lookup_default sd ''tables'' (JList []) = JList ts"
    and h2: "lookup_default sd' ''tables'' (JList []) = JList ts'" and h3: "mset ts' = mset ts"
    and h4: "lookup_default sd ''functions'' (JList []) = JList fs"
    and h5: "lookup_default sd' ''functions'' (JList []) = JList fs'" and h6: "mset fs' = mset fs"
    by blast+
  show "\<exists>r' T F. extract_supabase_references_from_workflows py_str (JList ws) = Inr (T, F) \<and>
           reconcile py_str now (JList ws) (JDict sd') = Inr r' \<and>
           field r' ''metadata'' = field r ''metadata'' \<and>
           field r' ''workflows'' = field r ''workflows'' \<and>
           field (field r ''supabase'') ''tables'' = JList (map (enriched_table T) ts) \<and>
           field (field r' ''supabase'') ''tables'' = JList (map (enriched_table T) ts') \<and>
           field (field r ''supabase'') ''functions'' = JList (map (enriched_function F) fs) \<and>
           field (field r' ''supabase'') ''functions'' = JList (map (enriched_function F) fs')"
    by (rule reconcile_perm_catalog [OF assms h1 h2 h3 h4 h5 h6])
qed

text \<open>
  C4 as stated fails: swapping two tables of the catalog changes the report, because the
  report lists the tables in the catalog's order.
\<close>

theorem report_follows_catalog_order:
  "mset [example_table_users, example_table_orders] = mset [example_table_orders, example_table_users] \<and>
   reconcile (\<lambda>v. []) ''t'' example_workflows
     (JDict (catalog_of [example_table_users, example_table_orders] [])) \<noteq>
   reconcile (\<lambda>v. []) ''t'' example_workflows
     (JDict (catalog_of [example_table_orders, example_table_users] []))"
proof
  show "mset [example_table_users, example_table_orders] =
      mset [example_table_orders, example_table_users]"
    by (simp add: add.commute)
  show "reconcile (\<lambda>v. []) ''t'' example_workflows
     (JDict (catalog_of [example_table_users, example_table_orders] [])) \<noteq>
   reconcile (\<lambda>v. []) ''t'' example_workflows
     (JDict (catalog_of [example_table_orders, example_table_users] []))"
    by code_simp
qed


theorem report_under_permutations_witness:
  "\<exists>r r1 r2 T F.
     reconcile (\<lambda>v. []) ''t'' (JList [example_workflow_sync, example_workflow_idle])
       (JDict (catalog_of [example_table_orders, example_table_users] [example_function_public])) = Inr r \<and>
     reconcile (\<lambda>v. []) ''t'' (JList [example_workflow_idle, example_workflow_sync])
       (JDict (catalog_of [example_table_orders, example_table_users] [example_function_public])) = Inr r1 \<and>
     field r1 ''metadata'' = field r ''metadata'' \<and> field r1 ''supabase'' = field r ''supabase'' \<and>
     field r1 ''workflows'' = JList [example_workflow_idle, example_workflow_sync] \<and>
     reconcile (\<lambda>v. []) ''t'' (JList [example_workflow_sync, example_workflow_idle])
       (JDict (catalog_of [example_table_users, example_table_orders] [example_function_public])) = Inr r2 \<and>
     field r2 ''metadata'' = field r ''metadata'' \<and> field r2 ''workflows'' = field r ''workflows'' \<and>
     field (field r ''supabase'') ''tables'' =
       JList (map (enriched_table T) [example_table_orders, example_table_users]) \<and>
     field (field r2 ''supabase'') ''tables'' =
       JList (map (enriched_table T) [example_table_users, example_table_orders])"
proof -
  let ?ws = "[example_workflow_sync, example_workflow_idle]"
  let ?sd = "catalog_of [example_table_orders, example_table_users] [example_function_public]"
  let ?sd' = "catalog_of [example_table_users, example_table_orders] [example_function_public]"
  have "case reconcile (\<lambda>v. []) ''t'' (JList ?ws) (JDict ?sd) of Inr r \<Rightarrow> True | Inl e \<Rightarrow> False"
    by code_simp
  then obtain r where r: "reconcile (\<lambda>v. []) ''t'' (JList ?ws) (JDict ?sd) = Inr r"
    by (cases "reconcile (\<lambda>v. []) ''t'' (JList ?ws) (JDict ?sd)") simp_all
  note p = report_under_permutations [OF r]
  have m: "mset [example_workflow_idle, example_workflow_sync] = mset ?ws"
    by (simp add: add.commute)
  from p m obtain r1 where r1:
    "reconcile (\<lambda>v. []) ''t'' (JList [example_workflow_idle, example_workflow_sync]) (JDict ?sd) = Inr r1"
    "field r1 ''metadata'' = field r ''metadata''" "field r1 ''supabase'' = field r ''supabase''"
    "field r1 ''workflows'' = JList [example_workflow_idle, example_workflow_sync]"
    by blast
  have c: "lookup_default ?sd ''tables'' (JList []) = JList [example_table_orders, example_table_users] \<and>
      lookup_default ?sd' ''tables'' (JList []) = JList [example_table_users, example_table_orders] \<and>
      mset [example_table_users, example_table_orders] = mset [example_table_orders, example_table_users] \<and>
      lookup_default ?sd ''functions'' (JList []) = JList [example_function_public] \<and>
      lookup_default ?sd' ''functions'' (JList []) = JList [example_function_public] \<and>
      mset [example_function_public] = mset [example_function_public]"
    by (simp add: catalog_of_def lookup_default_def add.commute)
  from p c obtain r2 T F where r2:
    "reconcile (\<lambda>v. []) ''t'' (JList ?ws) (JDict ?sd') = Inr r2"
    "field r2 ''metadata'' = field r ''metadata''" "field r2 ''workflows'' = field r ''workflows''"
    "field (field r ''supabase'') ''tables'' =
       JList (map (enriched_table T) [example_table_orders, example_table_users])"
    "field (field r2 ''supabase'') ''tables'' =
       JList (map (enriched_table T) [example_table_users, example_table_orders])"
    by blast
  from r r1 r2 show ?thesis by blast
qed

lemma reconcile_no_workflows:
  assumes "py_iter (lookup_default sd ''tables'' (JList [])) = Inr ts"
    and "list_all catalog_record ts"
    and "py_iter (lookup_default sd ''functions'' (JList [])) = Inr fs"
    and "list_all catalog_record fs"
  shows "\<exists>md ets efs.
      reconcile py_str now (JList []) (JDict sd) =
        Inr (JDict [(''metadata'', JDict md), (''workflows'', JList []),
                    (''supabase'', JDict [(''tables'', JList ets), (''functions'', JList efs)])]) \<and>
      length ets = length ts \<and> length efs = length fs \<and>
      list_all (\<lambda>e. field e ''used_by_n8n'' = JBool False) ets \<and>
      list_all (\<lambda>e. field e ''used_by_n8n'' = JBool False) efs \<and>
      lookup md ''tables_used_by_n8n'' = JInt 0 \<and>
      lookup md ''functions_used_by_n8n'' = JInt 0"
proof -
  have e: "extract_supabase_references_from_workflows py_str (JList []) = Inr ([], [])"
    by (simp add: extract_supabase_references_from_workflows_def)
  have s: "py_sorted [] = Inr []" by (simp add: py_sorted_def)
  let ?r = "JDict
         [(''metadata'', JDict
             [(''generated_at'', JStr now),
              (''workflow_count'', JInt 0),
              (''table_count'', JInt (int (length (map (enriched_table []) ts)))),
              (''function_count'', JInt (int (length (map (enriched_function []) fs)))),
              (''tables_used_by_n8n'', JInt (int (length ([] :: atom list)))),
              (''functions_used_by_n8n'', JInt (int (length ([] :: atom list))))]),
          (''workflows'', JList []),
          (''supabase'', JDict [(''tables'', JList (map (enriched_table []) ts)),
                               (''functions'', JList (map (enriched_function []) fs))])]"
  have "stack_data now (JList []) (map (enriched_table []) ts) (map (enriched_function []) fs) [] []
      = Inr ?r"
    unfolding stack_data_Inr by simp
  with e s assms have r: "reconcile py_str now (JList []) (JDict sd) = Inr ?r"
    unfolding reconcile_Inr by blast
  have nm: "\<not> member v []" for v
    by (simp add: member_def set_contains_def in_set_def split: option.splits)
  have t: "list_all (\<lambda>e. field e ''used_by_n8n'' = JBool False) (map (enriched_table []) ts)"
    using assms(2)
    by (auto simp: list_all_iff catalog_record_def enriched_table_def table_entry_def nm
        split: json.splits)
  have f: "list_all (\<lambda>e. field e ''used_by_n8n'' = JBool False) (map (enriched_function []) fs)"
    using assms(4)
    by (auto simp: list_all_iff catalog_record_def enriched_function_def function_entry_def nm
        split: json.splits)
  show ?thesis
    apply (rule exI [of _ "[(''generated_at'', JStr now),
              (''workflow_count'', JInt 0),
              (''table_count'', JInt (int (length (map (enriched_table []) ts)))),
              (''function_count'', JInt (int (length (map (enriched_function []) fs)))),
              (''tables_used_by_n8n'', JInt (int (length ([] :: atom list)))),
              (''functions_used_by_n8n'', JInt (int (length ([] :: atom list))))]"])
    apply (rule exI [of _ "map (enriched_table []) ts"])
    apply (rule exI [of _ "map (enriched_function []) fs"])
    using r t f by simp
qed


lemma main_no_workflow_files:
  assumes "files ''n8n_data.json'' = Absent"
    and "files ''n8n_workflows_export/n8n_data.json'' = Absent"
    and "load_supabase_data files = Inr cat"
  shows "main py_str now files = reconcile py_str now (JList []) cat"
proof -
  from assms(1,2) have "load_workflows files = Inr (JList [])"
    by (simp add: load_workflows_def load_json_def)
  with assms(3) show ?thesis by (simp add: main_def)
qed

text \<open>
  C5. For a catalog whose tables and functions are records (dicts with a hashable name),
  reconciling it with the empty list of workflows returns a report in which every table entry
  and every function entry has \<open>used_by_n8n\<close> false and whose metadata has
  \<open>tables_used_by_n8n\<close> and \<open>functions_used_by_n8n\<close> equal to 0; and that is the report
  of \<open>main\<close> when neither workflow file exists.
\<close>

theorem no_workflows_nothing_used:
  assumes "py_iter (lookup_default sd ''tables'' (JList [])) = Inr ts"
    and "list_all catalog_record ts"
    and "py_iter (lookup_default sd ''functions'' (JList [])) = Inr fs"
    and "list_all catalog_record fs"
  shows "(\<exists>md ets efs.
      reconcile py_str now (JList []) (JDict sd) =
        Inr (JDict [(''metadata'', JDict md), (''workflows'', JList []),
                    (''supabase'', JDict [(''tables'', JList ets), (''functions'', JList efs)])]) \<and>
      length ets = length ts \<and> length efs = length fs \<and>
      list_all (\<lambda>e. field e ''used_by_n8n'' = JBool False) ets \<and>
      list_all (\<lambda>e. field e ''used_by_n8n'' = JBool False) efs \<and>
      lookup md ''tables_used_by_n8n'' = JInt 0 \<and>
      lookup md ''functions_used_by_n8n'' = JInt 0) \<and>
    (\<forall>files. files ''n8n_data.json'' = Absent \<and>
       files ''n8n_workflows_export/n8n_data.json'' = Absent \<and>
       load_supabase_data files = Inr (JDict sd) \<longrightarrow>
       main py_str now files = reconcile py_str now (JList []) (JDict sd))"
proof (intro conjI allI impI)
  show "\<exists>md ets efs.
      reconcile py_str now (JList []) (JDict sd) =
        Inr (JDict [(''metadata'', JDict md), (''workflows'', JList []),
                    (''supabase'', JDict [(''tables'', JList ets), (''functions'', JList efs)])]) \<and>
      length ets = length ts \<and> length efs = length fs \<and>
      list_all (\<lambda>e. field e ''used_by_n8n'' = JBool False) ets \<and>
      list_all (\<lambda>e. field e ''used_by_n8n'' = JBool False) efs \<and>
      lookup md ''tables_used_by_n8n'' = JInt 0 \<and>
      lookup md ''functions_used_by_n8n'' = JInt 0"
    by (rule reconcile_no_workflows [OF assms])
next
  fix files
  assume "files ''n8n_data.json'' = Absent \<and>
       files ''n8n_workflows_export/n8n_data.json'' = Absent \<and>
       load_supabase_data files = Inr (JDict sd)"
  then show "main py_str now files = reconcile py_str now (JList []) (JDict sd)"
    by (simp add: main_no_workflow_files)
qed

theorem no_workflows_nothing_used_witness:
  "\<exists>md ets efs.
      main (\<lambda>v. []) ''t'' example_files_catalog_only =
        Inr (JDict [(''metadata'', JDict md), (''workflows'', JList []),
                    (''supabase'', JDict [(''tables'', JList ets), (''functions'', JList efs)])]) \<and>
      length ets = length [example_table_orders, example_table_users] \<and>
      length efs = length [example_function_public, example_function_other] \<and>
      list_all (\<lambda>e. field e ''used_by_n8n'' = JBool False) ets \<and>
      list_all (\<lambda>e. field e ''used_by_n8n'' = JBool False) efs \<and>
      lookup md ''tables_used_by_n8n'' = JInt 0 \<and>
      lookup md ''functions_used_by_n8n'' = JInt 0"
proof -
  let ?sd = "catalog_of [example_table_orders, example_table_users]
                        [example_function_public, example_function_other]"
  have h1: "py_iter (lookup_default ?sd ''tables'' (JList [])) =
      Inr [example_table_orders, example_table_users]" by code_simp
  have h2: "list_all catalog_record [example_table_orders, example_table_users]" by code_simp
  have h3: "py_iter (lookup_default ?sd ''functions'' (JList [])) =
      Inr [example_function_public, example_function_other]" by code_simp
  have h4: "list_all catalog_record [example_function_public, example_function_other]"
    by code_simp
  have f: "example_files_catalog_only ''n8n_data.json'' = Absent \<and>
       example_files_catalog_only ''n8n_workflows_export/n8n_data.json'' = Absent \<and>
       load_supabase_data example_files_catalog_only = Inr (JDict ?sd)"
    by code_simp
  note t = no_workflows_nothing_used [OF h1 h2 h3 h4, of "\<lambda>v. []" "''t''"]
  from t f have m: "main (\<lambda>v. []) ''t'' example_files_catalog_only =
      reconcile (\<lambda>v. []) ''t'' (JList []) (JDict ?sd)" by blast
  from t show ?thesis unfolding m by blast
qed

text \<open>
  C7. In every report the tables and functions lists are the catalog's lists, entry by
  entry, and the \<open>used_by_n8n\<close> of an entry is the membership of the record's \<open>name\<close>
  in \<open>tables_used\<close> (for a table) or \<open>functions_used\<close> (for a function). The schema is
  not read: two records of the same list with the same name get the same \<open>used_by_n8n\<close>.
\<close>

theorem usage_matches_bare_name:
  assumes "reconcile py_str now workflows (JDict sd) = Inr r"
  shows "\<exists>T F ts fs.
      extract_supabase_references_from_workflows py_str workflows = Inr (T, F) \<and>
      py_iter (lookup_default sd ''tables'' (JList [])) = Inr ts \<and>
      py_iter (lookup_default sd ''functions'' (JList [])) = Inr fs \<and>
      field (field r ''supabase'') ''tables'' = JList (map (enriched_table T) ts) \<and>
      field (field r ''supabase'') ''functions'' = JList (map (enriched_function F) fs) \<and>
      list_all (\<lambda>x. field (enriched_table T x) ''used_by_n8n'' = JBool (member (field x ''name'') T)) ts \<and>
      list_all (\<lambda>x. field (enriched_function F x) ''used_by_n8n'' = JBool (member (field x ''name'') F)) fs \<and>
      (\<forall>x \<in> set ts. \<forall>y \<in> set ts. field x ''name'' = field y ''name'' \<longrightarrow>
         field (enriched_table T x) ''used_by_n8n'' = field (enriched_table T y) ''used_by_n8n'') \<and>
      (\<forall>x \<in> set fs. \<forall>y \<in> set fs. field x ''name'' = field y ''name'' \<longrightarrow>
         field (enriched_function F x) ''used_by_n8n'' = field (enriched_function F y) ''used_by_n8n'')"
proof -
  from assms obtain T F ts fs where
    e: "extract_supabase_references_from_workflows py_str workflows = Inr (T, F)"
    and ts: "py_iter (lookup_default sd ''tables'' (JList [])) = Inr ts" "list_all catalog_record ts"
    and fs: "py_iter (lookup_default sd ''functions'' (JList [])) = Inr fs" "list_all catalog_record fs"
    and r: "stack_data now workflows (map (enriched_table T) ts) (map (enriched_function F) fs) T F = Inr r"
    unfolding reconcile_Inr by blast
  from r have rt: "field (field r ''supabase'') ''tables'' = JList (map (enriched_table T) ts)"
    and rf: "field (field r ''supabase'') ''functions'' = JList (map (enriched_function F) fs)"
    unfolding stack_data_Inr by auto
  have ft: "field (enriched_table T x) ''used_by_n8n'' = JBool (member (field x ''name'') T)"
    if "catalog_record x" for x
    using that by (cases x) (simp_all add: catalog_record_def enriched_table_def table_entry_def)
  have ff: "field (enriched_function F x) ''used_by_n8n'' = JBool (member (field x ''name'') F)"
    if "catalog_record x" for x
    using that by (cases x) (simp_all add: catalog_record_def enriched_function_def function_entry_def)
  from ts(2) ft have a: "list_all (\<lambda>x. field (enriched_table T x) ''used_by_n8n'' =
      JBool (member (field x ''name'') T)) ts"
    by (simp add: list_all_iff)
  from fs(2) ff have b: "list_all (\<lambda>x. field (enriched_function F x) ''used_by_n8n'' =
      JBool (member (field x ''name'') F)) fs"
    by (simp add: list_all_iff)
  from a have c: "\<forall>x \<in> set ts. \<forall>y \<in> set ts. field x ''name'' = field y ''name'' \<longrightarrow>
         field (enriched_table T x) ''used_by_n8n'' = field (enriched_table T y) ''used_by_n8n''"
    by (simp add: list_all_iff)
  from b have d: "\<forall>x \<in> set fs. \<forall>y \<in> set fs. field x ''name'' = field y ''name'' \<longrightarrow>
         field (enriched_function F x) ''used_by_n8n'' = field (enriched_function F y) ''used_by_n8n''"
    by (simp add: list_all_iff)
  from e ts(1) fs(1) rt rf a b c d show ?thesis by blast
qed

theorem usage_matches_bare_name_witness:
  "\<exists>r F.
     reconcile (\<lambda>v. []) ''t'' example_workflows
       (JDict (catalog_of [example_table_orders] [example_function_public, example_function_other]))
       = Inr r \<and>
     field (field r ''supabase'') ''functions'' =
       JList (map (enriched_function F) [example_function_public, example_function_other]) \<and>
     field example_function_public ''schema'' \<noteq> field example_function_other ''schema'' \<and>
     field (enriched_function F example_function_public) ''used_by_n8n'' =
       field (enriched_function F example_function_other) ''used_by_n8n''"
proof -
  let ?sd = "catalog_of [example_table_orders] [example_function_public, example_function_other]"
  have "case reconcile (\<lambda>v. []) ''t'' example_workflows (JDict ?sd) of
      Inr r \<Rightarrow> True | Inl e \<Rightarrow> False"
    by code_simp
  then obtain r where r: "reconcile (\<lambda>v. []) ''t'' example_workflows (JDict ?sd) = Inr r"
    by (cases "reconcile (\<lambda>v. []) ''t'' example_workflows (JDict ?sd)") simp_all
  have i: "py_iter (lookup_default ?sd ''functions'' (JList [])) =
      Inr [example_function_public, example_function_other]" by code_simp
  have n: "field example_function_public ''name'' = field example_function_other ''name''"
    by code_simp
  have sc: "field example_function_public ''schema'' \<noteq> field example_function_other ''schema''"
    by code_simp
  from usage_matches_bare_name [OF r] obtain T F ts fs where
    fs: "py_iter (lookup_default ?sd ''functions'' (JList [])) = Inr fs"
    and rf: "field (field r ''supabase'') ''functions'' = JList (map (enriched_function F) fs)"
    and same: "\<forall>x \<in> set fs. \<forall>y \<in> set fs. field x ''name'' = field y ''name'' \<longrightarrow>
         field (enriched_function F x) ''used_by_n8n'' = field (enriched_function F y) ''used_by_n8n''"
    by (elim exE conjE) (rule that)
  have fs_eq: "fs = [example_function_public, example_function_other]"
    using trans [OF fs [symmetric] i] by (simp only: sum.inject)
  have mem: "example_function_public \<in> set fs" "example_function_other \<in> set fs"
    unfolding fs_eq by simp_all
  from same mem n have u: "field (enriched_function F example_function_public) ''used_by_n8n'' =
       field (enriched_function F example_function_other) ''used_by_n8n''"
    by blast
  from rf have rf': "field (field r ''supabase'') ''functions'' =
       JList (map (enriched_function F) [example_function_public, example_function_other])"
    unfolding fs_eq .
  show ?thesis
    by (rule exI [of _ r], rule exI [of _ F]) (intro conjI r rf' sc u)
qed


lemma reconcile_clock:
  "rel_sum (=)
     (\<lambda>r1 r2. \<exists>md rest.
        r1 = JDict ((''metadata'', JDict ((''generated_at'', JStr now1) # md)) # rest) \<and>
        r2 = JDict ((''metadata'', JDict ((''generated_at'', JStr now2) # md)) # rest))
     (reconcile py_str now1 workflows cat) (reconcile py_str now2 workflows cat)"
proof (cases "reconcile py_str now1 workflows cat")
  case (Inr r1)
  then obtain T F pt pf sd ts fs where
    e: "extract_supabase_references_from_workflows py_str workflows = Inr (T, F)"
    and s: "py_sorted T = Inr pt" "py_sorted F = Inr pf" and sd: "cat = JDict sd"
    and ts: "py_iter (lookup_default sd ''tables'' (JList [])) = Inr ts" "list_all catalog_record ts"
    and fs: "py_iter (lookup_default sd ''functions'' (JList [])) = Inr fs" "list_all catalog_record fs"
    and r: "stack_data now1 workflows (map (enriched_table T) ts) (map (enriched_function F) fs) T F = Inr r1"
    unfolding reconcile_Inr by blast
  from r obtain n where n: "py_len workflows = Inr n" unfolding stack_data_Inr by blast
  define r2 where "r2 = JDict
         [(''metadata'', JDict
             [(''generated_at'', JStr now2),
              (''workflow_count'', JInt n),
              (''table_count'', JInt (int (length (map (enriched_table T) ts)))),
              (''function_count'', JInt (int (length (map (enriched_function F) fs)))),
              (''tables_used_by_n8n'', JInt (int (length T))),
              (''functions_used_by_n8n'', JInt (int (length F)))]),
          (''workflows'', workflows),
          (''supabase'', JDict [(''tables'', JList (map (enriched_table T) ts)),
                               (''functions'', JList (map (enriched_function F) fs))])]"
  have "stack_data now2 workflows (map (enriched_table T) ts) (map (enriched_function F) fs) T F = Inr r2"
    unfolding stack_data_Inr r2_def using n by simp
  with e s sd ts fs have "reconcile py_str now2 workflows cat = Inr r2"
    unfolding reconcile_Inr by blast
  moreover from r n have "r1 = JDict
         [(''metadata'', JDict
             [(''generated_at'', JStr now1),
              (''workflow_count'', JInt n),
              (''table_count'', JInt (int (length (map (enriched_table T) ts)))),
              (''function_count'', JInt (int (length (map (enriched_function F) fs)))),
              (''tables_used_by_n8n'', JInt (int (length T))),
              (''functions_used_by_n8n'', JInt (int (length F)))]),
          (''workflows'', workflows),
          (''supabase'', JDict [(''tables'', JList (map (enriched_table T) ts)),
                               (''functions'', JList (map (enriched_function F) fs))])]"
    unfolding stack_data_Inr by simp
  ultimately show ?thesis by (simp add: Inr r2_def)
next
  case (Inl e)
  then show ?thesis
    unfolding reconcile_def stack_data_def
    by (auto simp: bindE_def split: sum.splits json.splits prod.splits)
qed

text \<open>
  C9. Two runs of \<open>main\<close> on the same files with the same clock reading give the same
  result. With two clock readings they raise the same error or return two reports that
  differ only in the value of \<open>generated_at\<close>, the first key of \<open>metadata\<close>.
\<close>

theorem clock_only_sets_timestamp:
  "(now1 = now2 \<longrightarrow> main py_str now1 files = main py_str now2 files) \<and>
   rel_sum (=)
     (\<lambda>r1 r2. \<exists>md rest.
        r1 = JDict ((''metadata'', JDict ((''generated_at'', JStr now1) # md)) # rest) \<and>
        r2 = JDict ((''metadata'', JDict ((''generated_at'', JStr now2) # md)) # rest))
     (main py_str now1 files) (main py_str now2 files)"
proof
  show "now1 = now2 \<longrightarrow> main py_str now1 files = main py_str now2 files" by simp
  show "rel_sum (=)
     (\<lambda>r1 r2. \<exists>md rest.
        r1 = JDict ((''metadata'', JDict ((''generated_at'', JStr now1) # md)) # rest) \<and>
        r2 = JDict ((''metadata'', JDict ((''generated_at'', JStr now2) # md)) # rest))
     (main py_str now1 files) (main py_str now2 files)"
  proof (cases "load_workflows files")
    case (Inl e)
    then show ?thesis by (simp add: main_def)
  next
    case w: (Inr w)
    show ?thesis
    proof (cases "load_supabase_data files")
      case (Inl e)
      with w show ?thesis by (simp add: main_def)
    next
      case (Inr c)
      with w show ?thesis by (simp add: main_def reconcile_clock)
    qed
  qed
qed

theorem clock_only_sets_timestamp_witness:
  "\<exists>r1 r2 md rest.
     main (\<lambda>v. []) ''2026-01-01T00:00:00+00:00'' example_files = Inr r1 \<and>
     main (\<lambda>v. []) ''2026-01-02T00:00:00+00:00'' example_files = Inr r2 \<and>
     r1 = JDict ((''metadata'', JDict ((''generated_at'', JStr ''2026-01-01T00:00:00+00:00'') # md)) # rest) \<and>
     r2 = JDict ((''metadata'', JDict ((''generated_at'', JStr ''2026-01-02T00:00:00+00:00'') # md)) # rest)"
proof -
  have "case main (\<lambda>v. []) ''2026-01-01T00:00:00+00:00'' example_files of
      Inr r \<Rightarrow> True | Inl e \<Rightarrow> False"
    by code_simp
  then obtain r1 where r1: "main (\<lambda>v. []) ''2026-01-01T00:00:00+00:00'' example_files = Inr r1"
    by (cases "main (\<lambda>v. []) ''2026-01-01T00:00:00+00:00'' example_files") simp_all
  note t = conjunct2 [OF clock_only_sets_timestamp
      [of "''2026-01-01T00:00:00+00:00''" "''2026-01-02T00:00:00+00:00''" "\<lambda>v. []" example_files]]
  show ?thesis
  proof (cases "main (\<lambda>v. []) ''2026-01-02T00:00:00+00:00'' example_files")
    case (Inl e)
    with t r1 show ?thesis by (simp only: rel_sum_simps)
  next
    case (Inr r2)
    with t r1 have "\<exists>md rest.
        r1 = JDict ((''metadata'', JDict ((''generated_at'', JStr ''2026-01-01T00:00:00+00:00'') # md)) # rest) \<and>
        r2 = JDict ((''metadata'', JDict ((''generated_at'', JStr ''2026-01-02T00:00:00+00:00'') # md)) # rest)"
      by (simp only: rel_sum_simps)
    with r1 Inr show ?thesis by blast
  qed
qed

end
